theory Spec2Isabelle
  imports Main "HOL-Library.Word"
begin

section \<open>The QUIC session engine of \<^verbatim>\<open>src/node_quic_session.cc\<close>\<close>

text \<open>
  The session is embedded by explicit state passing: every member function of
  \<^verbatim>\<open>QuicSession\<close> becomes a function from the session record to the session record
  (with the C++ return value beside it where there is one). A failed \<^verbatim>\<open>CHECK\<close>
  aborts the process; a function that contains one returns an \<open>option\<close>, and \<open>None\<close>
  is the abort. \<^verbatim>\<open>DCHECK\<close> is compiled out of release builds and is not modelled.
  \<^verbatim>\<open>Debug(...)\<close> lines have no effect and are left out.

  Three collaborators are outside the repository's sources and are modelled by what
  the session can observe of them:
  \<^item> the transport library (ngtcp2): its connection object is the record
    \<open>ngtcp2_conn\<close>. Queries read a field; a call that serialises or reads a packet
    takes its answer from a finite script held in the record, one entry per call, and
    answers \<open>0\<close> once the script is used up;
  \<^item> the UDP socket: \<^verbatim>\<open>Socket()->SendPacket\<close> takes its error code from a script in the
    same way, and every packet handed over is appended to the session's \<open>trace\<close>;
  \<^item> the JavaScript listener: \<^verbatim>\<open>MakeCallback\<close> appends the event to the \<open>trace\<close>;
    the listener is an observer and does not call back into the session.
  The monotonic clock \<^verbatim>\<open>uv_hrtime()\<close> is the field \<open>hrtime\<close>. Socket addresses, network
  paths and the recovery statistics (floating point) are left out: no function below
  branches on them.
\<close>

subsection \<open>Data\<close>

type_synonym uint64_t = "64 word"
type_synonym uint8_t = "8 word"

datatype ngtcp2_crypto_side = NGTCP2_CRYPTO_SIDE_CLIENT | NGTCP2_CRYPTO_SIDE_SERVER

datatype ngtcp2_crypto_level =
  NGTCP2_CRYPTO_LEVEL_INITIAL | NGTCP2_CRYPTO_LEVEL_HANDSHAKE | NGTCP2_CRYPTO_LEVEL_APP

datatype QuicSessionFlag =
  QUICSESSION_FLAG_DESTROYED
  | QUICSESSION_FLAG_CLOSING
  | QUICSESSION_FLAG_GRACEFUL_CLOSING
  | QUICSESSION_FLAG_SILENT_CLOSE
  | QUICSESSION_FLAG_KEYUPDATE

datatype QuicErrorFamily = QUIC_ERROR_SESSION | QUIC_ERROR_CRYPTO | QUIC_ERROR_APPLICATION

record QuicError =
  err_family :: QuicErrorFamily
  err_code :: int

text \<open>
  The return codes of the transport library that the session tests for. They are
  macros of the library's header \<^verbatim>\<open>ngtcp2/ngtcp2.h\<close>; the values are the header's.
  The session only compares against them, so the theorems below use that they are
  negative and pairwise different, nothing else.
\<close>

definition NGTCP2_NO_ERROR :: int where "NGTCP2_NO_ERROR = 0"
definition NGTCP2_ERR_STREAM_DATA_BLOCKED :: int where "NGTCP2_ERR_STREAM_DATA_BLOCKED = - 210"
definition NGTCP2_ERR_PKT_NUM_EXHAUSTED :: int where "NGTCP2_ERR_PKT_NUM_EXHAUSTED = - 216"
definition NGTCP2_ERR_STREAM_SHUT_WR :: int where "NGTCP2_ERR_STREAM_SHUT_WR = - 221"
definition NGTCP2_ERR_STREAM_NOT_FOUND :: int where "NGTCP2_ERR_STREAM_NOT_FOUND = - 222"
definition NGTCP2_ERR_RECV_VERSION_NEGOTIATION :: int where
  "NGTCP2_ERR_RECV_VERSION_NEGOTIATION = - 229"
definition NGTCP2_ERR_CLOSING :: int where "NGTCP2_ERR_CLOSING = - 230"
definition NGTCP2_ERR_DRAINING :: int where "NGTCP2_ERR_DRAINING = - 231"
definition NGTCP2_ERR_INTERNAL :: int where "NGTCP2_ERR_INTERNAL = - 238"

lemmas ngtcp2_codes =
  NGTCP2_NO_ERROR_def NGTCP2_ERR_STREAM_DATA_BLOCKED_def NGTCP2_ERR_PKT_NUM_EXHAUSTED_def
  NGTCP2_ERR_STREAM_SHUT_WR_def NGTCP2_ERR_STREAM_NOT_FOUND_def
  NGTCP2_ERR_RECV_VERSION_NEGOTIATION_def NGTCP2_ERR_CLOSING_def NGTCP2_ERR_DRAINING_def
  NGTCP2_ERR_INTERNAL_def

text \<open>The fields of \<^verbatim>\<open>session_stats_\<close> that the functions below write (all \<^verbatim>\<open>uint64_t\<close>).\<close>

record session_stats =
  handshake_acked_at :: uint64_t
  session_sent_at :: uint64_t
  session_received_at :: uint64_t
  bytes_received :: uint64_t
  bytes_sent :: uint64_t
  bidi_stream_count :: uint64_t
  uni_stream_count :: uint64_t
  streams_in_count :: uint64_t
  streams_out_count :: uint64_t

text \<open>
  Modelled from the spec: \<^verbatim>\<open>QuicBuffer\<close> (\<^verbatim>\<open>node_quic_buffer.h\<close> is not among the
  sources). The spec gives an append-only queue of byte chunks that supports cancel,
  append and drain, and "consuming N bytes on ack frees the oldest N bytes". The queue
  is the list of its chunks, oldest first.
\<close>

type_synonym QuicBuffer = "uint8_t list list"

definition Length :: "QuicBuffer \<Rightarrow> nat" where
  "Length q = length (concat q)"

definition Push :: "uint8_t list \<Rightarrow> QuicBuffer \<Rightarrow> QuicBuffer" where
  "Push chunk q = q @ [chunk]"

definition Cancel :: "QuicBuffer \<Rightarrow> QuicBuffer" where
  "Cancel q = []"

fun QuicBuffer_Consume :: "nat \<Rightarrow> QuicBuffer \<Rightarrow> QuicBuffer" where
  "QuicBuffer_Consume n [] = []"
| "QuicBuffer_Consume n (chunk # q) =
     (if length chunk \<le> n then QuicBuffer_Consume (n - length chunk) q
      else drop n chunk # q)"

text \<open>
  A stream as the session sees it through the getters of \<^verbatim>\<open>QuicStream\<close>
  (\<^verbatim>\<open>node_quic_stream.h\<close> is not among the sources): \<open>pending\<close> is what
  \<^verbatim>\<open>DrainInto\<close> hands out (the chunk lengths of the \<^verbatim>\<open>ngtcp2_vec\<close> array),
  \<open>committed\<close> sums the arguments of \<^verbatim>\<open>Commit\<close>, \<open>received\<close> lists the arguments of
  \<^verbatim>\<open>ReceiveData\<close>.
\<close>

datatype QuicStreamOrigin = QUIC_STREAM_SERVER | QUIC_STREAM_CLIENT
datatype QuicStreamDirection = QUIC_STREAM_BIRECTIONAL | QUIC_STREAM_UNIDIRECTIONAL

record QuicStream =
  stream_id :: int
  origin :: QuicStreamOrigin
  direction :: QuicStreamDirection
  ever_writable :: bool
  writable :: bool
  fin_sent :: bool
  pending :: "nat list"
  committed :: nat
  received :: "(int \<times> uint8_t list \<times> uint64_t) list"

text \<open>What the session does to the outside, in program order.\<close>

datatype action =
  SocketSendPacket string "uint8_t list"
  | SocketRemoveSession
  | ConnWritePkt
  | ConnWritevStream int
  | ConnWriteConnectionClose QuicErrorFamily int
  | ConnReadPkt
  | ConnShutdownStream int int
  | ConnExtendMaxOffset nat
  | OnSessionClose int QuicErrorFamily
  | OnSessionSilentClose bool int QuicErrorFamily
  | OnStreamReady int

text \<open>
  The callbacks the transport library raises while it reads a packet, restricted to
  the handlers embedded below.
\<close>

datatype callback =
  CbAckedCryptoOffset ngtcp2_crypto_level nat
  | CbReceiveStreamData int int "uint8_t list" uint64_t
  | CbStatelessReset

record ngtcp2_conn =
  in_closing_period :: bool
  in_draining_period :: bool
  get_idle_expiry :: uint64_t
  get_expiry :: uint64_t
  get_max_data_left :: uint64_t
  write_pkt_script :: "(int \<times> uint8_t list) list"
  writev_stream_script :: "(int \<times> int \<times> uint8_t list) list"
  write_connection_close_script :: "(int \<times> uint8_t list) list"
  read_pkt_script :: "(int \<times> callback list \<times> bool) list"

record QuicSocket =
  send_script :: "int list"

record session =
  side :: ngtcp2_crypto_side
  flags :: "QuicSessionFlag set"
  in_ngtcp2_callback_scope :: bool
  session_stats :: session_stats
  crypto_rx_ack :: "uint64_t list"
  last_error :: QuicError
  initial_connection_close :: int
  sendbuf :: QuicBuffer
  txbuf :: QuicBuffer
  handshake :: "ngtcp2_crypto_level \<Rightarrow> QuicBuffer"
  conn_closebuf :: "uint8_t list"
  streams :: "(int \<times> QuicStream) list"
  connection_close_attempts :: nat
  connection_close_limit :: nat
  idle :: "uint64_t option"
  retransmit :: "uint64_t option"
  socket :: "QuicSocket option"
  connection :: ngtcp2_conn
  hrtime :: uint64_t
  trace :: "action list"

subsection \<open>Small members of the session\<close>

text \<open>
  The inline members of \<^verbatim>\<open>node_quic_session-inl.h\<close> (not among the sources) that the
  functions below call: \<^verbatim>\<open>IsFlagSet\<close> and \<^verbatim>\<open>SetFlag\<close> read and write one flag;
  \<^verbatim>\<open>IsInClosingPeriod\<close> and \<^verbatim>\<open>IsInDrainingPeriod\<close> report the state of the transport
  connection (the closing period begins when the library has written a connection
  close, the draining period when it has received one).
\<close>

definition IsFlagSet :: "QuicSessionFlag \<Rightarrow> session \<Rightarrow> bool" where
  "IsFlagSet f s = (f \<in> flags s)"

definition SetFlag :: "QuicSessionFlag \<Rightarrow> bool \<Rightarrow> session \<Rightarrow> session" where
  "SetFlag f on s = s\<lparr>flags := (if on then insert f (flags s) else flags s - {f})\<rparr>"

definition IsInClosingPeriod :: "session \<Rightarrow> bool" where
  "IsInClosingPeriod s = in_closing_period (connection s)"

definition IsInDrainingPeriod :: "session \<Rightarrow> bool" where
  "IsInDrainingPeriod s = in_draining_period (connection s)"

definition log_action :: "action \<Rightarrow> session \<Rightarrow> session" where
  "log_action a s = s\<lparr>trace := trace s @ [a]\<rparr>"

text \<open>
  \<^verbatim>\<open>SetLastError\<close> is declared in \<^verbatim>\<open>node_quic_session-inl.h\<close>, which is not among
  the sources; it is taken to store the family and the code it is given. The call
  without arguments, \<^verbatim>\<open>SetLastError()\<close>, stores the default error, taken to be
  family session with \<^verbatim>\<open>NGTCP2_NO_ERROR\<close>.
\<close>

definition SetLastError :: "QuicErrorFamily \<Rightarrow> int \<Rightarrow> session \<Rightarrow> session" where
  "SetLastError fam c s = s\<lparr>last_error := \<lparr>err_family = fam, err_code = c\<rparr>\<rparr>"

definition SetLastError_default :: "session \<Rightarrow> session" where
  "SetLastError_default s = SetLastError QUIC_ERROR_SESSION NGTCP2_NO_ERROR s"

text \<open>
  Modelled from the spec: \<^verbatim>\<open>IncrementStat\<close> (a template of
  \<^verbatim>\<open>node_quic_util.h\<close>, not among the sources). The spec's statistics are counters;
  incrementing one by an amount adds the amount to the 64-bit field.
\<close>

definition IncrementStat :: "uint64_t \<Rightarrow> uint64_t \<Rightarrow> uint64_t" where
  "IncrementStat amount current = current + amount"

subsection \<open>Timers\<close>

text \<open>
  \<^verbatim>\<open>Timer::Update(t)\<close> re-arms the single-shot timer to fire after \<open>t\<close> milliseconds,
  \<^verbatim>\<open>Timer::Stop()\<close> disarms it: a timer is \<open>Some t\<close> when armed and \<open>None\<close> when stopped.
\<close>

definition UpdateIdleTimer :: "session \<Rightarrow> session" where
  "UpdateIdleTimer s =
     (let now = hrtime s;
          expiry = get_idle_expiry (connection s);
          timeout = (expiry - now) div 1000000;
          timeout = (if expiry < now \<or> timeout = 0 then 1 else timeout)
      in s\<lparr>idle := Some timeout\<rparr>)"

definition UpdateRetransmitTimer :: "uint64_t \<Rightarrow> session \<Rightarrow> session" where
  "UpdateRetransmitTimer timeout s = s\<lparr>retransmit := Some timeout\<rparr>"

definition ScheduleRetransmit :: "session \<Rightarrow> session" where
  "ScheduleRetransmit s =
     (let now = hrtime s;
          expiry = get_expiry (connection s);
          interval = (expiry - now) div 1000000;
          interval = (if expiry < now \<or> interval = 0 then 1 else interval)
      in UpdateRetransmitTimer interval s)"

definition StopIdleTimer :: "session \<Rightarrow> session" where
  "StopIdleTimer s = s\<lparr>idle := None\<rparr>"

definition StopRetransmitTimer :: "session \<Rightarrow> session" where
  "StopRetransmitTimer s = s\<lparr>retransmit := None\<rparr>"

text \<open>
  The timeout that the spec's sentence on the idle timer gives, in milliseconds:
  the smaller of one millisecond and the time left until expiry.
\<close>

definition idle_timeout_spec :: "uint64_t \<Rightarrow> uint64_t \<Rightarrow> uint64_t" where
  "idle_timeout_spec now expiry = min 1 ((expiry - now) div 1000000)"

subsection \<open>Acknowledged crypto data\<close>

definition AckedCryptoOffset :: "ngtcp2_crypto_level \<Rightarrow> nat \<Rightarrow> session \<Rightarrow> session" where
  "AckedCryptoOffset level datalen s =
     (if IsFlagSet QUICSESSION_FLAG_DESTROYED s then s
      else
        let s1 = s\<lparr>handshake := (handshake s)(level := QuicBuffer_Consume datalen (handshake s level))\<rparr>;
            now = hrtime s1;
            s2 = (if handshake_acked_at (session_stats s1) > 0
                  then s1\<lparr>crypto_rx_ack :=
                         crypto_rx_ack s1 @ [now - handshake_acked_at (session_stats s1)]\<rparr>
                  else s1)
        in s2\<lparr>session_stats := (session_stats s2)\<lparr>handshake_acked_at := now\<rparr>\<rparr>)"

subsection \<open>The stream table\<close>

text \<open>
  Modelled from the spec: the container type of \<^verbatim>\<open>streams_\<close> is declared in
  \<^verbatim>\<open>node_quic_session.h\<close>, which is not among the sources. The spec has "a per-session
  map of stream-id to stream", "keyed by signed stream id", and the source uses the
  member as a map keyed by stream id: \<^verbatim>\<open>find(id)\<close> with \<^verbatim>\<open>it->second\<close> in \<^verbatim>\<open>FindStream\<close>,
  \<^verbatim>\<open>emplace(id, stream)\<close> in \<^verbatim>\<open>AddStream\<close>, \<^verbatim>\<open>erase(id)\<close> in \<^verbatim>\<open>RemoveStream\<close>, and
  \<^verbatim>\<open>stream.second\<close> in the loop of \<^verbatim>\<open>SendPendingData\<close>. Such a map (\<^verbatim>\<open>std::map\<close>) holds
  one entry for a key, and a loop over it visits the entries by ascending key, whatever
  the order in which they were put in. The table is the list of the entries in the
  order in which a loop over it visits them; \<^verbatim>\<open>emplace\<close> puts a new key at its place
  among the keys and leaves the table alone when the key is already there.
\<close>

definition FindStream :: "int \<Rightarrow> session \<Rightarrow> QuicStream option" where
  "FindStream i s = map_of (streams s) i"

fun emplace :: "int \<Rightarrow> QuicStream \<Rightarrow> (int \<times> QuicStream) list \<Rightarrow> (int \<times> QuicStream) list" where
  "emplace i st [] = [(i, st)]"
| "emplace i st ((k, v) # tab) =
     (if i = k then (k, v) # tab
      else if i < k then (i, st) # (k, v) # tab
      else (k, v) # emplace i st tab)"

definition bump_streams_in :: "session \<Rightarrow> session" where
  "bump_streams_in s =
     s\<lparr>session_stats := (session_stats s)
        \<lparr>streams_in_count := IncrementStat 1 (streams_in_count (session_stats s))\<rparr>\<rparr>"

definition bump_streams_out :: "session \<Rightarrow> session" where
  "bump_streams_out s =
     s\<lparr>session_stats := (session_stats s)
        \<lparr>streams_out_count := IncrementStat 1 (streams_out_count (session_stats s))\<rparr>\<rparr>"

definition bump_bidi :: "session \<Rightarrow> session" where
  "bump_bidi s =
     s\<lparr>session_stats := (session_stats s)
        \<lparr>bidi_stream_count := IncrementStat 1 (bidi_stream_count (session_stats s))\<rparr>\<rparr>"

definition bump_uni :: "session \<Rightarrow> session" where
  "bump_uni s =
     s\<lparr>session_stats := (session_stats s)
        \<lparr>uni_stream_count := IncrementStat 1 (uni_stream_count (session_stats s))\<rparr>\<rparr>"

definition AddStream :: "QuicStream \<Rightarrow> session \<Rightarrow> session" where
  "AddStream st s =
     (let s1 = s\<lparr>streams := emplace (stream_id st) st (streams s)\<rparr>;
          s2 = (case origin st of
                  QUIC_STREAM_CLIENT \<Rightarrow>
                    if side s1 = NGTCP2_CRYPTO_SIDE_SERVER then bump_streams_in s1
                    else bump_streams_out s1
                | QUIC_STREAM_SERVER \<Rightarrow>
                    if side s1 = NGTCP2_CRYPTO_SIDE_SERVER then bump_streams_out s1
                    else bump_streams_in s1);
          s3 = bump_streams_out s2
      in (case direction st of
            QUIC_STREAM_BIRECTIONAL \<Rightarrow> bump_bidi s3
          | QUIC_STREAM_UNIDIRECTIONAL \<Rightarrow> bump_uni s3))"

text \<open>
  Whether a stream was opened by the peer of this session or by the session itself:
  a stream of client origin is the peer's on a server and local on a client.
\<close>

definition peer_initiated :: "session \<Rightarrow> QuicStream \<Rightarrow> bool" where
  "peer_initiated s st =
     ((origin st = QUIC_STREAM_CLIENT) = (side s = NGTCP2_CRYPTO_SIDE_SERVER))"

text \<open>
  Modelled from the spec: \<^verbatim>\<open>QuicStream::New\<close> (\<^verbatim>\<open>node_quic_stream.cc\<close> is not among
  the sources). The stream id encodes origin and direction: bit 0 is set on streams
  the server opened, bit 1 on unidirectional streams. A stream the peer opened one way
  cannot be written to.
\<close>

definition QuicStream_New :: "int \<Rightarrow> ngtcp2_crypto_side \<Rightarrow> QuicStream" where
  "QuicStream_New i sd =
     (let org = (if i mod 2 = 1 then QUIC_STREAM_SERVER else QUIC_STREAM_CLIENT);
          dir = (if (i div 2) mod 2 = 1 then QUIC_STREAM_UNIDIRECTIONAL
                 else QUIC_STREAM_BIRECTIONAL);
          peer = ((org = QUIC_STREAM_CLIENT) = (sd = NGTCP2_CRYPTO_SIDE_SERVER));
          w = (dir = QUIC_STREAM_BIRECTIONAL \<or> \<not> peer)
      in \<lparr>stream_id = i, origin = org, direction = dir, ever_writable = w, writable = w,
          fin_sent = False, pending = [], committed = 0, received = []\<rparr>)"

text \<open>
  \<^verbatim>\<open>CreateStream\<close>: the stream made by \<^verbatim>\<open>QuicStream::New\<close> registers itself with the
  session through \<^verbatim>\<open>AddStream\<close>; then the listener is told that the stream is ready.
\<close>

definition CreateStream :: "int \<Rightarrow> session \<Rightarrow> session option" where
  "CreateStream i s =
     (if IsFlagSet QUICSESSION_FLAG_DESTROYED s then None
      else if IsFlagSet QUICSESSION_FLAG_GRACEFUL_CLOSING s then None
      else if IsFlagSet QUICSESSION_FLAG_CLOSING s then None
      else Some (log_action (OnStreamReady i) (AddStream (QuicStream_New i (side s)) s)))"

definition stream_ReceiveData ::
    "int \<Rightarrow> int \<Rightarrow> uint8_t list \<Rightarrow> uint64_t \<Rightarrow> session \<Rightarrow> session" where
  "stream_ReceiveData i fin data offset s =
     s\<lparr>streams := map (\<lambda>(k, st). if k = i
                          then (k, st\<lparr>received := received st @ [(fin, data, offset)]\<rparr>)
                          else (k, st)) (streams s)\<rparr>"

text \<open>
  \<^verbatim>\<open>ReceiveStreamData\<close>: the \<^verbatim>\<open>OnScopeLeave\<close> guard is set up after the two early
  returns, so the connection-wide offset is extended on every later way out.
\<close>

definition ReceiveStreamData ::
    "int \<Rightarrow> int \<Rightarrow> uint8_t list \<Rightarrow> uint64_t \<Rightarrow> session \<Rightarrow> session option" where
  "ReceiveStreamData i fin data offset s =
     (let datalen = length data in
      if fin = 0 \<and> datalen = 0 then Some s
      else if IsFlagSet QUICSESSION_FLAG_DESTROYED s then Some s
      else
        let leave = log_action (ConnExtendMaxOffset datalen) in
        (case FindStream i s of
           None \<Rightarrow>
             if IsFlagSet QUICSESSION_FLAG_GRACEFUL_CLOSING s
             then Some (leave (log_action (ConnShutdownStream i NGTCP2_ERR_CLOSING) s))
             else if datalen = 0 then Some (leave s)
             else (case CreateStream i s of
                     None \<Rightarrow> None
                   | Some s1 \<Rightarrow> Some (leave (stream_ReceiveData i fin data offset s1)))
         | Some st \<Rightarrow> Some (leave (stream_ReceiveData i fin data offset s))))"

subsection \<open>The send path\<close>

text \<open>
  Modelled from the spec: \<^verbatim>\<open>QuicSocket::SendPacket\<close> (\<^verbatim>\<open>node_quic_socket.cc\<close> is not
  among the sources). The transmit queue is handed to the endpoint: the bytes queued
  in \<^verbatim>\<open>txbuf_\<close> leave the session, and the call answers with an error code (0 is
  success).
\<close>

definition Socket_SendPacket :: "string \<Rightarrow> QuicSocket \<Rightarrow> session \<Rightarrow> int \<times> session" where
  "Socket_SendPacket label sock s =
     (let err = (case send_script sock of [] \<Rightarrow> 0 | e # es \<Rightarrow> e);
          sock1 = sock\<lparr>send_script := tl (send_script sock)\<rparr>
      in (err, s\<lparr>socket := Some sock1, txbuf := [],
                 trace := trace s @ [SocketSendPacket label (concat (txbuf s))]\<rparr>))"

definition SendPacket :: "string \<Rightarrow> session \<Rightarrow> (bool \<times> session) option" where
  "SendPacket diagnostic_label s =
     (if IsFlagSet QUICSESSION_FLAG_DESTROYED s then None
      else if IsInDrainingPeriod s then None
      else
        let s1 = (if Length (sendbuf s) > 0
                  then s\<lparr>session_stats := (session_stats s)
                           \<lparr>bytes_sent := IncrementStat (of_nat (Length (sendbuf s)))
                                            (bytes_sent (session_stats s))\<rparr>,
                         txbuf := txbuf s @ sendbuf s,
                         sendbuf := []\<rparr>
                  else s)
        in (case socket s1 of
              None \<Rightarrow> Some (True, s1)
            | Some sock \<Rightarrow>
                if Length (txbuf s1) = 0 then Some (True, s1)
                else
                  let s2 = s1\<lparr>session_stats := (session_stats s1)
                                \<lparr>session_sent_at := hrtime s1\<rparr>\<rparr>;
                      s3 = ScheduleRetransmit s2;
                      (err, s4) = Socket_SendPacket diagnostic_label sock s3
                  in if err \<noteq> 0 then Some (False, SetLastError QUIC_ERROR_SESSION err s4)
                     else Some (True, s4)))"

definition SilentClose :: "bool \<Rightarrow> session \<Rightarrow> session option" where
  "SilentClose stateless_reset s =
     (if IsFlagSet QUICSESSION_FLAG_CLOSING s then None
      else
        let s1 = SetFlag QUICSESSION_FLAG_SILENT_CLOSE True s;
            s2 = SetFlag QUICSESSION_FLAG_CLOSING True s1
        in Some (log_action (OnSessionSilentClose stateless_reset
                   (err_code (last_error s2)) (err_family (last_error s2))) s2))"

definition ImmediateClose :: "session \<Rightarrow> session option" where
  "ImmediateClose s =
     (if IsFlagSet QUICSESSION_FLAG_CLOSING s then None
      else
        let s1 = SetFlag QUICSESSION_FLAG_CLOSING True s
        in Some (log_action (OnSessionClose
                   (err_code (last_error s1)) (err_family (last_error s1))) s1))"

text \<open>
  One call of \<^verbatim>\<open>ngtcp2_conn_write_pkt\<close>: the next scripted answer, the number of bytes
  written and the destination buffer as the library leaves it.
\<close>

definition conn_write_pkt :: "session \<Rightarrow> (int \<times> uint8_t list) \<times> session" where
  "conn_write_pkt s =
     (let c = connection s;
          r = (case write_pkt_script c of [] \<Rightarrow> (0, []) | x # xs \<Rightarrow> x)
      in (r, log_action ConnWritePkt
               (s\<lparr>connection := c\<lparr>write_pkt_script := tl (write_pkt_script c)\<rparr>\<rparr>)))"

text \<open>The \<^verbatim>\<open>for (;;)\<close> loop of \<^verbatim>\<open>WritePackets\<close>.\<close>

function WritePackets_loop :: "string \<Rightarrow> session \<Rightarrow> (bool \<times> session) option" where
  "WritePackets_loop diagnostic_label s =
     (let r = conn_write_pkt s;
          nwrite = fst (fst r);
          dest = snd (fst r);
          s1 = snd r
      in
      if nwrite \<le> 0 then
        (if nwrite = 0 then Some (True, s1)
         else if nwrite = NGTCP2_ERR_PKT_NUM_EXHAUSTED then
           (case SilentClose False s1 of None \<Rightarrow> None | Some s2 \<Rightarrow> Some (False, s2))
         else Some (False, SetLastError QUIC_ERROR_SESSION nwrite s1))
      else
        (case SendPacket diagnostic_label
                (s1\<lparr>sendbuf := Push (take (nat nwrite) dest) (sendbuf s1)\<rparr>) of
           None \<Rightarrow> None
         | Some (ok, s2) \<Rightarrow>
             if \<not> ok then Some (False, s2) else WritePackets_loop diagnostic_label s2))"
  by pat_completeness auto
termination
  apply (relation "measure (\<lambda>(l, s). length (write_pkt_script (connection s)))")
   apply simp
  apply (auto simp: SendPacket_def conn_write_pkt_def log_action_def Socket_SendPacket_def
      ScheduleRetransmit_def UpdateRetransmitTimer_def SetLastError_def Let_def
      split: if_splits option.splits prod.splits list.splits)
  done

text \<open>
  \<^verbatim>\<open>ngtcp2_conn_write_connection_close\<close> or \<^verbatim>\<open>ngtcp2_conn_write_application_close\<close>,
  whichever \<^verbatim>\<open>SelectCloseFn\<close> picks for the error family. Once the packet is written
  the connection is in the closing period.
\<close>

definition conn_write_connection_close ::
    "QuicError \<Rightarrow> session \<Rightarrow> (int \<times> uint8_t list) \<times> session" where
  "conn_write_connection_close e s =
     (let c = connection s;
          r = (case write_connection_close_script c of [] \<Rightarrow> (0, []) | x # xs \<Rightarrow> x);
          c1 = c\<lparr>write_connection_close_script := tl (write_connection_close_script c),
                 in_closing_period := (in_closing_period c \<or> fst r > 0)\<rparr>
      in (r, log_action (ConnWriteConnectionClose (err_family e) (err_code e))
               (s\<lparr>connection := c1\<rparr>)))"

definition StartClosingPeriod :: "session \<Rightarrow> (bool \<times> session) option" where
  "StartClosingPeriod s =
     (if IsFlagSet QUICSESSION_FLAG_DESTROYED s then Some (False, s)
      else if IsInClosingPeriod s then Some (True, s)
      else
        let s1 = StopRetransmitTimer s;
            s2 = UpdateIdleTimer s1;
            s3 = s2\<lparr>sendbuf := Cancel (sendbuf s2)\<rparr>;
            error = last_error s3;
            ((nwrite, dest), s4) = conn_write_connection_close error s3;
            s5 = s4\<lparr>conn_closebuf := dest\<rparr>
        in if nwrite < 0 then
             (if nwrite = NGTCP2_ERR_PKT_NUM_EXHAUSTED then
                (case SilentClose False s5 of None \<Rightarrow> None | Some s6 \<Rightarrow> Some (False, s6))
              else Some (False, SetLastError QUIC_ERROR_SESSION nwrite s5))
           else Some (True, s5\<lparr>conn_closebuf := take (nat nwrite) dest\<rparr>))"

text \<open>
  \<^verbatim>\<open>WritePackets\<close> sends the connection close when the closing period has begun, and
  \<^verbatim>\<open>SendConnectionClose\<close> writes pending packets first when it has not: the two call
  each other, at most one level deep. \<^verbatim>\<open>SendConnectionClose\<close> is virtual; the body
  that runs is \<^verbatim>\<open>QuicServerSession\<close>'s on a server and \<^verbatim>\<open>QuicClientSession\<close>'s on a
  client.
\<close>

function WritePackets :: "string \<Rightarrow> session \<Rightarrow> (bool \<times> session) option"
  and SendConnectionClose :: "session \<Rightarrow> (bool \<times> session) option"
where
  "WritePackets diagnostic_label s =
     (if in_ngtcp2_callback_scope s then None
      else if IsFlagSet QUICSESSION_FLAG_DESTROYED s then None
      else if IsInDrainingPeriod s then Some (True, s)
      else if IsInClosingPeriod s then SendConnectionClose s
      else WritePackets_loop diagnostic_label s)"
| "SendConnectionClose s =
     (if side s = NGTCP2_CRYPTO_SIDE_SERVER then
        (if in_ngtcp2_callback_scope s then None
         else if IsInDrainingPeriod s \<or> IsFlagSet QUICSESSION_FLAG_SILENT_CLOSE s
         then Some (True, s)
         else
           (case (if \<not> IsInClosingPeriod s then
                    (case WritePackets ''server connection close - write packets'' s of
                       None \<Rightarrow> None
                     | Some (ok, s1) \<Rightarrow>
                         if \<not> ok then Some (False, s1) else StartClosingPeriod s1)
                  else Some (True, s)) of
              None \<Rightarrow> None
            | Some (ok, s2) \<Rightarrow>
                if \<not> ok then Some (False, s2)
                else
                  let s3 = UpdateIdleTimer s2 in
                  if \<not> length (conn_closebuf s3) > 0 then None
                  else
                    SendPacket ''server connection close''
                      (s3\<lparr>sendbuf := Push (conn_closebuf s3) (Cancel (sendbuf s3))\<rparr>)))
      else
        (if in_ngtcp2_callback_scope s then None
         else if IsInDrainingPeriod s \<or> IsFlagSet QUICSESSION_FLAG_SILENT_CLOSE s
         then Some (True, s)
         else
           let s1 = UpdateIdleTimer s;
               s2 = s1\<lparr>sendbuf := Cancel (sendbuf s1)\<rparr>;
               error = last_error s2
           in
           (case (if \<not> IsInClosingPeriod s2 then
                    WritePackets ''client connection close - write packets'' s2
                  else Some (True, s2)) of
              None \<Rightarrow> None
            | Some (ok, s3) \<Rightarrow>
                if \<not> ok then Some (False, s3)
                else
                  let ((nwrite, dest), s4) = conn_write_connection_close error s3 in
                  if nwrite < 0
                  then Some (False, SetLastError QUIC_ERROR_SESSION nwrite s4)
                  else
                    SendPacket ''client connection close''
                      (s4\<lparr>sendbuf := Push (take (nat nwrite) dest) (sendbuf s4)\<rparr>))))"
  by pat_completeness auto
termination
  by (relation "measure (\<lambda>x. case x of
          Inl (l, s) \<Rightarrow> (if IsInClosingPeriod s then 2 else 0)
        | Inr s \<Rightarrow> 1)")
     (auto simp: IsInClosingPeriod_def UpdateIdleTimer_def Let_def)

text \<open>
  \<^verbatim>\<open>HandleError\<close> is virtual as well: \<^verbatim>\<open>QuicClientSession\<close> runs the base body only
  while the connection exists and is not in the closing period. The session is
  modelled from \<^verbatim>\<open>Init\<close> on, when \<^verbatim>\<open>connection_\<close> is set.
\<close>

definition QuicSession_HandleError :: "session \<Rightarrow> session option" where
  "QuicSession_HandleError s =
     (case SendConnectionClose (s\<lparr>sendbuf := Cancel (sendbuf s)\<rparr>) of
        None \<Rightarrow> None
      | Some (ok, s1) \<Rightarrow>
          if \<not> ok
          then ImmediateClose (SetLastError QUIC_ERROR_SESSION NGTCP2_ERR_INTERNAL s1)
          else Some s1)"

definition HandleError :: "session \<Rightarrow> session option" where
  "HandleError s =
     (if side s = NGTCP2_CRYPTO_SIDE_SERVER then QuicSession_HandleError s
      else if \<not> IsInClosingPeriod s then QuicSession_HandleError s
      else Some s)"


subsection \<open>Serialising stream data\<close>

text \<open>The helpers of the anonymous namespace, on the chunk lengths of the vector.\<close>

fun Consume :: "nat list \<Rightarrow> nat \<Rightarrow> nat list" where
  "Consume [] len = []"
| "Consume (v # vs) len = (if v > len then (v - len) # vs else Consume vs (len - v))"

definition IsEmpty :: "nat list \<Rightarrow> bool" where
  "IsEmpty vec = list_all (\<lambda>len. len = 0) vec"

text \<open>
  Modelled from the spec: \<^verbatim>\<open>QuicStream::Commit\<close> and \<^verbatim>\<open>QuicStream::SetFinSent\<close>
  (\<^verbatim>\<open>node_quic_stream.h\<close> is not among the sources). Committing takes the serialised
  prefix off the stream's queue; once the final frame is sent the stream stays so.
\<close>

definition update_stream :: "int \<Rightarrow> (QuicStream \<Rightarrow> QuicStream) \<Rightarrow> session \<Rightarrow> session" where
  "update_stream i f s =
     s\<lparr>streams := map (\<lambda>(k, st). if k = i then (k, f st) else (k, st)) (streams s)\<rparr>"

definition stream_Commit :: "int \<Rightarrow> nat \<Rightarrow> session \<Rightarrow> session" where
  "stream_Commit i n s =
     update_stream i (\<lambda>st. st\<lparr>committed := committed st + n,
                                pending := Consume (pending st) n\<rparr>) s"

definition stream_SetFinSent :: "int \<Rightarrow> session \<Rightarrow> session" where
  "stream_SetFinSent i s = update_stream i (\<lambda>st. st\<lparr>fin_sent := True\<rparr>) s"

text \<open>
  One call of \<^verbatim>\<open>ngtcp2_conn_writev_stream\<close>: the bytes written, the stream bytes taken
  (\<^verbatim>\<open>ndatalen\<close>) and the destination buffer.
\<close>

definition conn_writev_stream :: "int \<Rightarrow> session \<Rightarrow> (int \<times> int \<times> uint8_t list) \<times> session" where
  "conn_writev_stream i s =
     (let c = connection s;
          r = (case writev_stream_script c of [] \<Rightarrow> (0, 0, []) | x # xs \<Rightarrow> x)
      in (r, log_action (ConnWritevStream i)
               (s\<lparr>connection := c\<lparr>writev_stream_script := tl (writev_stream_script c)\<rparr>\<rparr>)))"

text \<open>
  The \<^verbatim>\<open>for (;;)\<close> loop of \<^verbatim>\<open>SendStreamData\<close>; \<open>v\<close> is the part of the vector still to
  be serialised, \<open>st\<close> the stream as it was when the function was entered.
\<close>

function SendStreamData_loop ::
    "QuicStream \<Rightarrow> nat list \<Rightarrow> session \<Rightarrow> (bool \<times> session) option" where
  "SendStreamData_loop st v s =
     (let r = conn_writev_stream (stream_id st) s;
          nwrite = fst (fst r);
          ndatalen = fst (snd (fst r));
          dest = snd (snd (fst r));
          s1 = snd r
      in
      if nwrite \<le> 0 then
        (if nwrite = 0 then Some (True, s1)
         else if nwrite = NGTCP2_ERR_PKT_NUM_EXHAUSTED then
           (case SilentClose False s1 of None \<Rightarrow> None | Some s2 \<Rightarrow> Some (False, s2))
         else if nwrite = NGTCP2_ERR_STREAM_DATA_BLOCKED then Some (True, s1)
         else if nwrite = NGTCP2_ERR_STREAM_SHUT_WR then Some (True, s1)
         else if nwrite = NGTCP2_ERR_STREAM_NOT_FOUND then Some (True, s1)
         else Some (False, SetLastError QUIC_ERROR_SESSION nwrite s1))
      else
        let v1 = (if ndatalen > 0 then Consume v (nat ndatalen) else v);
            s2 = (if ndatalen > 0 then stream_Commit (stream_id st) (nat ndatalen) s1 else s1);
            s3 = s2\<lparr>sendbuf := Push (take (nat nwrite) dest) (sendbuf s2)\<rparr>
        in
        (case SendPacket ''stream data'' s3 of
           None \<Rightarrow> None
         | Some (ok, s4) \<Rightarrow>
             if \<not> ok then Some (False, s4)
             else if IsEmpty v1 then
               Some (True, if \<not> writable st then stream_SetFinSent (stream_id st) s4 else s4)
             else SendStreamData_loop st v1 s4))"
  by pat_completeness auto
termination
  apply (relation "measure (\<lambda>(st, v, s). length (writev_stream_script (connection s)))")
   apply simp
  apply (auto simp: SendPacket_def conn_writev_stream_def log_action_def Socket_SendPacket_def
      ScheduleRetransmit_def UpdateRetransmitTimer_def SetLastError_def Let_def
      stream_Commit_def update_stream_def
      split: if_splits option.splits prod.splits list.splits)
  done

definition SendStreamData :: "QuicStream \<Rightarrow> session \<Rightarrow> (bool \<times> session) option" where
  "SendStreamData st s =
     (if in_ngtcp2_callback_scope s then None
      else if IsFlagSet QUICSESSION_FLAG_DESTROYED s \<or>
              \<not> ever_writable st \<or>
              fin_sent st \<or>
              IsInDrainingPeriod s \<or>
              IsInClosingPeriod s \<or>
              get_max_data_left (connection s) = 0
      then Some (True, s)
      else
        let vec = pending st in
        if length vec = 0 \<and> writable st then Some (True, s)
        else SendStreamData_loop st vec s)"

subsection \<open>Sending pending data\<close>

text \<open>
  The loop of \<^verbatim>\<open>SendPendingData\<close> over the stream table. The flag in the result says
  whether the loop ran to its end (\<open>True\<close>) or the function returned from inside it.
\<close>

fun SendPendingData_streams ::
    "(int \<times> QuicStream) list \<Rightarrow> session \<Rightarrow> (bool \<times> session) option" where
  "SendPendingData_streams [] s = Some (True, s)"
| "SendPendingData_streams ((i, st) # rest) s =
     (case SendStreamData st s of
        None \<Rightarrow> None
      | Some (ok, s1) \<Rightarrow>
          if \<not> ok then
            (case HandleError s1 of None \<Rightarrow> None | Some s2 \<Rightarrow> Some (False, s2))
          else if IsInDrainingPeriod s1 \<or>
                  IsInClosingPeriod s1 \<or>
                  IsFlagSet QUICSESSION_FLAG_DESTROYED s1
          then Some (False, s1)
          else SendPendingData_streams rest s1)"

definition SendPendingData :: "session \<Rightarrow> session option" where
  "SendPendingData s =
     (if in_ngtcp2_callback_scope s \<or>
         IsFlagSet QUICSESSION_FLAG_DESTROYED s \<or>
         IsInDrainingPeriod s \<or>
         (side s = NGTCP2_CRYPTO_SIDE_SERVER \<and> IsInClosingPeriod s)
      then Some s
      else
        (case SendPacket ''pending session data'' s of
           None \<Rightarrow> None
         | Some (ok, s1) \<Rightarrow>
             if \<not> ok then HandleError s1
             else
               (case SendPendingData_streams (streams s1) s1 of
                  None \<Rightarrow> None
                | Some (finished, s2) \<Rightarrow>
                    if \<not> finished then Some s2
                    else
                      (case WritePackets ''pending session data - write packets'' s2 of
                         None \<Rightarrow> None
                       | Some (ok2, s3) \<Rightarrow>
                           if \<not> ok2 then HandleError s3 else Some s3))))"

subsection \<open>Receiving\<close>

text \<open>
  The static callback wrappers: \<^verbatim>\<open>OnAckedCryptoOffset\<close> and \<^verbatim>\<open>OnReceiveStreamData\<close> run
  their handler inside an \<^verbatim>\<open>Ngtcp2CallbackScope\<close>, \<^verbatim>\<open>OnStatelessReset\<close> calls
  \<^verbatim>\<open>SilentClose(true)\<close> directly.
\<close>

definition in_callback_scope :: "(session \<Rightarrow> session option) \<Rightarrow> session \<Rightarrow> session option" where
  "in_callback_scope handler s =
     (case handler (s\<lparr>in_ngtcp2_callback_scope := True\<rparr>) of
        None \<Rightarrow> None
      | Some s1 \<Rightarrow> Some (s1\<lparr>in_ngtcp2_callback_scope := False\<rparr>))"

fun run_callback :: "callback \<Rightarrow> session \<Rightarrow> session option" where
  "run_callback (CbAckedCryptoOffset level datalen) s =
     in_callback_scope (\<lambda>s. Some (AckedCryptoOffset level datalen s)) s"
| "run_callback (CbReceiveStreamData i fin data offset) s =
     in_callback_scope (ReceiveStreamData i fin data offset) s"
| "run_callback CbStatelessReset s = SilentClose True s"

fun run_callbacks :: "callback list \<Rightarrow> session \<Rightarrow> session option" where
  "run_callbacks [] s = Some s"
| "run_callbacks (cb # cbs) s =
     (case run_callback cb s of None \<Rightarrow> None | Some s1 \<Rightarrow> run_callbacks cbs s1)"

text \<open>
  One call of \<^verbatim>\<open>ngtcp2_conn_read_pkt\<close>: the library raises the scripted callbacks,
  may find the peer's connection close (the draining period begins) and answers with
  its return code.
\<close>

definition conn_read_pkt :: "session \<Rightarrow> (int \<times> session) option" where
  "conn_read_pkt s =
     (let c = connection s;
          r = (case read_pkt_script c of [] \<Rightarrow> (0, [], False) | x # xs \<Rightarrow> x);
          s1 = log_action ConnReadPkt
                 (s\<lparr>connection := c\<lparr>read_pkt_script := tl (read_pkt_script c)\<rparr>\<rparr>)
      in (case run_callbacks (fst (snd r)) s1 of
            None \<Rightarrow> None
          | Some s2 \<Rightarrow>
              Some (fst r,
                    s2\<lparr>connection := (connection s2)
                         \<lparr>in_draining_period :=
                            (in_draining_period (connection s2) \<or> snd (snd r))\<rparr>\<rparr>)))"

definition ReceivePacket :: "session \<Rightarrow> (bool \<times> session) option" where
  "ReceivePacket s =
     (if IsFlagSet QUICSESSION_FLAG_DESTROYED s then Some (True, s)
      else
        let now = hrtime s;
            s1 = s\<lparr>session_stats := (session_stats s)\<lparr>session_received_at := now\<rparr>\<rparr>
        in (case conn_read_pkt s1 of
              None \<Rightarrow> None
            | Some (err, s2) \<Rightarrow>
                if err < 0 then
                  (if err = NGTCP2_ERR_DRAINING \<or> err = NGTCP2_ERR_RECV_VERSION_NEGOTIATION
                   then Some (True, s2)
                   else Some (False, SetLastError QUIC_ERROR_SESSION err s2))
                else Some (True, s2)))"

text \<open>
  Modelled from the spec: \<^verbatim>\<open>IncrementConnectionCloseAttempts\<close> and
  \<^verbatim>\<open>ShouldAttemptConnectionClose\<close> (\<^verbatim>\<open>node_quic_session-inl.h\<close> is not among the
  sources). The spec: in the closing period each inbound packet increments the
  close-attempt counter, and the connection close is sent again only if the counter
  is below a threshold.
\<close>

definition IncrementConnectionCloseAttempts :: "session \<Rightarrow> session" where
  "IncrementConnectionCloseAttempts s =
     s\<lparr>connection_close_attempts := connection_close_attempts s + 1\<rparr>"

definition ShouldAttemptConnectionClose :: "session \<Rightarrow> bool" where
  "ShouldAttemptConnectionClose s =
     (connection_close_attempts s < connection_close_limit s)"

text \<open>
  \<^verbatim>\<open>Receive\<close>. Of its arguments only \<^verbatim>\<open>nread\<close> is kept: the packet bytes and the
  address go to the transport library, whose answer is scripted. The first statement
  after the test for a destroyed session counts the bytes.
\<close>

definition count_bytes_received :: "int \<Rightarrow> session \<Rightarrow> session" where
  "count_bytes_received nread s =
     s\<lparr>session_stats := (session_stats s)
        \<lparr>bytes_received := IncrementStat (word_of_int nread) (bytes_received (session_stats s))\<rparr>\<rparr>"

definition Receive :: "int \<Rightarrow> session \<Rightarrow> (bool \<times> session) option" where
  "Receive nread s =
     (if IsFlagSet QUICSESSION_FLAG_DESTROYED s then Some (False, s)
      else
        let s1 = count_bytes_received nread s in
        if IsInClosingPeriod s1 then
          (let s2 = IncrementConnectionCloseAttempts s1 in
           if \<not> ShouldAttemptConnectionClose s2 then Some (False, s2)
           else SendConnectionClose s2)
        else if IsInDrainingPeriod s1 then Some (True, s1)
        else
          (case ReceivePacket s1 of
             None \<Rightarrow> None
           | Some (ok, s2) \<Rightarrow>
               if \<not> ok then
                 (if initial_connection_close s2 = NGTCP2_NO_ERROR then
                    (case HandleError s2 of None \<Rightarrow> None | Some s3 \<Rightarrow> Some (False, s3))
                  else
                    (case SendConnectionClose
                            (SetLastError QUIC_ERROR_SESSION (initial_connection_close s2) s2) of
                       None \<Rightarrow> None
                     | Some (_, s3) \<Rightarrow> Some (True, s3)))
               else if IsFlagSet QUICSESSION_FLAG_DESTROYED s2 then
                 (if \<not> IsInClosingPeriod s2 \<and> \<not> IsInDrainingPeriod s2 then
                    (case SendConnectionClose (SetLastError_default s2) of
                       None \<Rightarrow> None
                     | Some (_, s3) \<Rightarrow> Some (True, s3))
                  else Some (True, s2))
               else if IsInDrainingPeriod s2 then
                 (case SilentClose False s2 of None \<Rightarrow> None | Some s3 \<Rightarrow> Some (True, s3))
               else
                 (case SendPendingData s2 of
                    None \<Rightarrow> None
                  | Some s3 \<Rightarrow> Some (True, UpdateIdleTimer s3))))"

subsection \<open>Destroying the session\<close>

text \<open>
  \<^verbatim>\<open>RemoveFromSocket\<close> dereferences \<^verbatim>\<open>socket_\<close> and then resets it; without a socket
  the call has no defined result.
\<close>

definition RemoveFromSocket :: "session \<Rightarrow> session option" where
  "RemoveFromSocket s =
     (case socket s of
        None \<Rightarrow> None
      | Some sock \<Rightarrow> Some ((log_action SocketRemoveSession s)\<lparr>socket := None\<rparr>))"

definition Destroy :: "session \<Rightarrow> session option" where
  "Destroy s =
     (if IsFlagSet QUICSESSION_FLAG_DESTROYED s then Some s
      else
        (case (if \<not> in_ngtcp2_callback_scope s \<and>
                  \<not> IsInClosingPeriod s \<and>
                  \<not> IsInDrainingPeriod s
               then (case SendConnectionClose (SetLastError_default s) of
                       None \<Rightarrow> None
                     | Some (_, s1) \<Rightarrow> Some s1)
               else Some s) of
           None \<Rightarrow> None
         | Some s1 \<Rightarrow>
             if streams s1 \<noteq> [] then None
             else
               let s2 = SetFlag QUICSESSION_FLAG_DESTROYED True s1;
                   s3 = SetFlag QUICSESSION_FLAG_CLOSING False s2;
                   s4 = SetFlag QUICSESSION_FLAG_GRACEFUL_CLOSING False s3;
                   s5 = StopIdleTimer s4;
                   s6 = StopRetransmitTimer s5
               in RemoveFromSocket s6))"

subsection \<open>What leaves the session\<close>

text \<open>
  The send path of a session: the bytes queued in \<^verbatim>\<open>sendbuf_\<close> and \<^verbatim>\<open>txbuf_\<close> and the
  calls made to the socket, the transport library and the listener so far.
\<close>

definition send_path :: "session \<Rightarrow> QuicBuffer \<times> QuicBuffer \<times> action list" where
  "send_path s = (sendbuf s, txbuf s, trace s)"

text \<open>
  What no send routine writes: the received-bytes statistic, the callback-scope
  marker, the connection-wide flow-control credit as the library reports it and the
  role of the session.
\<close>

definition send_frame :: "session \<Rightarrow> uint64_t \<times> bool \<times> uint64_t \<times> ngtcp2_crypto_side" where
  "send_frame s =
     (bytes_received (session_stats s), in_ngtcp2_callback_scope s,
      get_max_data_left (connection s), side s)"

text \<open>
  Reading a trace: the calls that serialise stream data, the flush of the send buffer
  at the start of \<^verbatim>\<open>SendPendingData\<close> (told by its diagnostic label), and the calls that
  serialise packets without new stream data.
\<close>

definition is_writev :: "action \<Rightarrow> bool" where
  "is_writev a = (case a of ConnWritevStream i \<Rightarrow> True | _ \<Rightarrow> False)"

definition is_flush :: "action \<Rightarrow> bool" where
  "is_flush a = (case a of SocketSendPacket l b \<Rightarrow> l = ''pending session data'' | _ \<Rightarrow> False)"

definition is_lib_write :: "action \<Rightarrow> bool" where
  "is_lib_write a =
     (case a of ConnWritePkt \<Rightarrow> True | ConnWriteConnectionClose f c \<Rightarrow> True | _ \<Rightarrow> False)"

fun writev_ids :: "action list \<Rightarrow> int list" where
  "writev_ids [] = []"
| "writev_ids (ConnWritevStream i # t) = i # writev_ids t"
| "writev_ids (a # t) = writev_ids t"

text \<open>
  A sequence of stream ids follows a table when it can be read off by walking the
  table once from its first entry to its last, each entry accounting for any number
  of consecutive ids equal to its own.
\<close>

fun follows :: "int list \<Rightarrow> int list \<Rightarrow> bool" where
  "follows [] tab = True"
| "follows (x # xs) [] = False"
| "follows (x # xs) (i # tab) = (if x = i then follows xs (i # tab) else follows (x # xs) tab)"

definition table_ids :: "(int \<times> QuicStream) list \<Rightarrow> int list" where
  "table_ids tab = map (\<lambda>(i, st). stream_id st) tab"

text \<open>A stream that \<^verbatim>\<open>SendStreamData\<close> has something to serialise for: data, or the fin.\<close>

definition sendable :: "QuicStream \<Rightarrow> bool" where
  "sendable st = (ever_writable st \<and> \<not> fin_sent st \<and> (pending st \<noteq> [] \<or> \<not> writable st))"

text \<open>
  A sequence of stream ids serialises a table when it is what one walk over the table
  gives: for each entry in turn, one or more times the id of its stream when the
  stream is sendable, and nothing when it is not.
\<close>

fun serialised :: "int list \<Rightarrow> (int \<times> QuicStream) list \<Rightarrow> bool" where
  "serialised xs [] = (xs = [])"
| "serialised [] ((i, st) # tab) = (\<not> sendable st \<and> serialised [] tab)"
| "serialised (x # xs) ((i, st) # tab) =
     (if sendable st
      then x = stream_id st \<and> (serialised xs tab \<or> serialised xs ((i, st) # tab))
      else serialised (x # xs) tab)"

subsection \<open>The send routines in small steps\<close>

text \<open>
  What the routines that send without serialising new stream data are composed of:
  calls into the transport library other than \<^verbatim>\<open>writev\<close>, queueing, handing the queue to
  the socket under any label but the one of the flush, closing, recording an error,
  timers. \<^verbatim>\<open>WritePackets\<close>, \<^verbatim>\<open>SendConnectionClose\<close>, \<^verbatim>\<open>StartClosingPeriod\<close> and
  \<^verbatim>\<open>HandleError\<close> are sequences of such steps (shown below).
\<close>

inductive nonstream_step :: "session \<Rightarrow> session \<Rightarrow> bool" where
  write_pkt: "nonstream_step s (snd (conn_write_pkt s))"
| write_close: "nonstream_step s (snd (conn_write_connection_close e s))"
| set_sendbuf: "nonstream_step s (s\<lparr>sendbuf := b\<rparr>)"
| set_closebuf: "nonstream_step s (s\<lparr>conn_closebuf := b\<rparr>)"
| send: "SendPacket l s = Some (r, s') \<Longrightarrow> l \<noteq> ''pending session data'' \<Longrightarrow> nonstream_step s s'"
| silent: "SilentClose b s = Some s' \<Longrightarrow> nonstream_step s s'"
| immediate: "ImmediateClose s = Some s' \<Longrightarrow> nonstream_step s s'"
| set_error: "nonstream_step s (SetLastError f c s)"
| idle_timer: "nonstream_step s (UpdateIdleTimer s)"
| stop_retransmit: "nonstream_step s (StopRetransmitTimer s)"

text \<open>The steps \<^verbatim>\<open>SendStreamData\<close> is composed of, for the stream with id \<open>i\<close>.\<close>

inductive stream_step :: "int \<Rightarrow> session \<Rightarrow> session \<Rightarrow> bool" where
  writev: "stream_step i s (snd (conn_writev_stream i s))"
| commit: "stream_step i s (stream_Commit i n s)"
| set_sendbuf: "stream_step i s (s\<lparr>sendbuf := b\<rparr>)"
| send: "SendPacket ''stream data'' s = Some (r, s') \<Longrightarrow> stream_step i s s'"
| fin: "stream_step i s (stream_SetFinSent i s)"
| silent: "SilentClose b s = Some s' \<Longrightarrow> stream_step i s s'"
| set_error: "stream_step i s (SetLastError f c s)"

text \<open>The trace grows by actions that all satisfy \<open>P\<close>.\<close>

definition trace_grows :: "(action \<Rightarrow> bool) \<Rightarrow> session \<Rightarrow> session \<Rightarrow> bool" where
  "trace_grows P s s' = (\<exists>t. trace s' = trace s @ t \<and> list_all P t)"

subsection \<open>Concrete sessions\<close>

text \<open>
  A fresh server session with an attached socket and a quiet transport library, and
  variations of it that the instances below are evaluated on.
\<close>

definition session0 :: session where
  "session0 = \<lparr>side = NGTCP2_CRYPTO_SIDE_SERVER, flags = {}, in_ngtcp2_callback_scope = False,
     session_stats = \<lparr>handshake_acked_at = 0, session_sent_at = 0, session_received_at = 0,
       bytes_received = 0, bytes_sent = 0, bidi_stream_count = 0, uni_stream_count = 0,
       streams_in_count = 0, streams_out_count = 0\<rparr>,
     crypto_rx_ack = [], last_error = \<lparr>err_family = QUIC_ERROR_SESSION, err_code = 0\<rparr>,
     initial_connection_close = 0, sendbuf = [], txbuf = [],
     handshake = (\<lambda>l. []), conn_closebuf = [], streams = [],
     connection_close_attempts = 0, connection_close_limit = 3,
     idle = None, retransmit = None, socket = Some \<lparr>send_script = []\<rparr>,
     connection = \<lparr>in_closing_period = False, in_draining_period = False,
       get_idle_expiry = 0, get_expiry = 0, get_max_data_left = 1000,
       write_pkt_script = [], writev_stream_script = [], write_connection_close_script = [],
       read_pkt_script = []\<rparr>,
     hrtime = 0, trace = []\<rparr>"

definition idle_example :: session where
  "idle_example = session0\<lparr>connection := (connection session0)\<lparr>get_idle_expiry := 5000000\<rparr>\<rparr>"

definition ack_example :: session where
  "ack_example = session0\<lparr>handshake :=
     (\<lambda>l. if l = NGTCP2_CRYPTO_LEVEL_INITIAL then [[1, 2], [3, 4, 5]] else [[9]])\<rparr>"

definition peer_stream_example :: QuicStream where
  "peer_stream_example = QuicStream_New 0 NGTCP2_CRYPTO_SIDE_SERVER"

text \<open>
  A session whose peer has closed the connection (draining period) while a packet is
  still queued and the transport library has more to write.
\<close>

definition draining_example :: session where
  "draining_example = session0\<lparr>sendbuf := [[1, 2]],
     connection := (connection session0)\<lparr>in_draining_period := True,
       write_pkt_script := [(3, [7, 7, 7])]\<rparr>\<rparr>"

text \<open>
  A server in the closing period that keeps its CONNECTION_CLOSE packet, before the
  first and at the third packet received since.
\<close>

definition closing_example :: session where
  "closing_example = session0\<lparr>conn_closebuf := [1, 2, 3],
     connection := (connection session0)\<lparr>in_closing_period := True\<rparr>\<rparr>"

definition closing_exhausted_example :: session where
  "closing_exhausted_example = closing_example\<lparr>connection_close_attempts := 2\<rparr>"

text \<open>A writable stream with five bytes queued, and a session whose library answers
  the next \<^verbatim>\<open>writev\<close> call with a given code.\<close>

definition stream_example :: QuicStream where
  "stream_example = (QuicStream_New 0 NGTCP2_CRYPTO_SIDE_SERVER)\<lparr>pending := [5]\<rparr>"

definition writev_example :: "int \<Rightarrow> session" where
  "writev_example r = session0\<lparr>streams := [(0, stream_example)],
     connection := (connection session0)\<lparr>writev_stream_script := [(r, 0, [])]\<rparr>\<rparr>"

text \<open>A session without streams whose library can still write the connection close.\<close>

definition destroy_example :: session where
  "destroy_example = session0\<lparr>
     connection := (connection session0)\<lparr>write_connection_close_script := [(3, [1, 2, 3])]\<rparr>\<rparr>"

text \<open>
  A client session that receives 120 bytes: the library acknowledges crypto data,
  delivers stream data and then asks for nothing more.
\<close>

definition receive_example :: session where
  "receive_example = session0\<lparr>side := NGTCP2_CRYPTO_SIDE_CLIENT,
     handshake := (\<lambda>l. [[1, 2, 3]]),
     connection := (connection session0)\<lparr>read_pkt_script :=
       [(0, [CbAckedCryptoOffset NGTCP2_CRYPTO_LEVEL_INITIAL 2,
             CbReceiveStreamData 3 0 [8, 9] 0], False)]\<rparr>\<rparr>"



text \<open>A destroyed server session whose connection is in the closing period.\<close>

definition destroyed_closing_example :: session where
  "destroyed_closing_example = closing_example\<lparr>flags := {QUICSESSION_FLAG_DESTROYED}\<rparr>"

section \<open>Properties\<close>

text \<open>The recursive equations are unfolded by hand, one step at a time.\<close>

declare WritePackets.simps [simp del] SendConnectionClose.simps [simp del]
  WritePackets_loop.simps [simp del] SendStreamData_loop.simps [simp del]

subsection \<open>The idle timer\<close>

lemma word_max_1: "max 1 w = (if w = 0 then 1 else w)" for w :: uint64_t
  by (simp add: max_def flip: not_less)

text \<open>
  C6, as the code has it. \<^verbatim>\<open>UpdateIdleTimer\<close> re-arms the idle timer to the time left
  until the transport library's idle expiry, in whole milliseconds, and to one
  millisecond when that would be zero or the expiry lies in the past: the larger of
  1 ms and the time left, not the smaller.
\<close>

theorem UpdateIdleTimer_timeout:
  "idle (UpdateIdleTimer s) =
     Some (if get_idle_expiry (connection s) < hrtime s then 1
           else max 1 ((get_idle_expiry (connection s) - hrtime s) div 1000000))"
  by (simp add: UpdateIdleTimer_def Let_def word_max_1)

theorem UpdateIdleTimer_timeout_witness:
  "idle (UpdateIdleTimer idle_example) = Some 5"
  using UpdateIdleTimer_timeout [of idle_example]
  by (simp add: idle_example_def session0_def)

text \<open>
  With the clock at 0 and the idle expiry 5 ms away the timer is armed for 5 ms; the
  smaller of 1 ms and the time left would be 1 ms.
\<close>

theorem UpdateIdleTimer_min_counterexample:
  "idle (UpdateIdleTimer idle_example) \<noteq>
     Some (idle_timeout_spec (hrtime idle_example) (get_idle_expiry (connection idle_example)))"
  by (simp add: UpdateIdleTimer_def idle_timeout_spec_def idle_example_def session0_def)

subsection \<open>Acknowledged crypto data\<close>

lemma concat_QuicBuffer_Consume: "concat (QuicBuffer_Consume n q) = drop n (concat q)"
  by (induction q arbitrary: n) auto

text \<open>
  C5. On a session that is not destroyed, acknowledging \<open>B\<close> crypto bytes at level \<open>L\<close>
  takes the oldest \<open>B\<close> bytes off the buffer of that level (what is left is the old
  content without its first \<open>B\<close> bytes, so the length drops by \<open>B\<close>) and leaves the
  buffers of the other levels as they were; on a destroyed session nothing changes.
\<close>

theorem AckedCryptoOffset_consumes_head:
  "(\<not> IsFlagSet QUICSESSION_FLAG_DESTROYED s \<longrightarrow>
      concat (handshake (AckedCryptoOffset L B s) L) = drop B (concat (handshake s L)) \<and>
      Length (handshake (AckedCryptoOffset L B s) L) = Length (handshake s L) - B \<and>
      (\<forall>L'. L' \<noteq> L \<longrightarrow> handshake (AckedCryptoOffset L B s) L' = handshake s L')) \<and>
   (IsFlagSet QUICSESSION_FLAG_DESTROYED s \<longrightarrow> AckedCryptoOffset L B s = s)"
  by (simp add: AckedCryptoOffset_def Let_def Length_def concat_QuicBuffer_Consume)

theorem AckedCryptoOffset_consumes_head_witness:
  "\<not> IsFlagSet QUICSESSION_FLAG_DESTROYED ack_example \<and>
   concat (handshake ack_example NGTCP2_CRYPTO_LEVEL_INITIAL) = [1, 2, 3, 4, 5] \<and>
   concat (handshake (AckedCryptoOffset NGTCP2_CRYPTO_LEVEL_INITIAL 3 ack_example)
             NGTCP2_CRYPTO_LEVEL_INITIAL) = [4, 5] \<and>
   handshake (AckedCryptoOffset NGTCP2_CRYPTO_LEVEL_INITIAL 3 ack_example)
     NGTCP2_CRYPTO_LEVEL_APP = [[9]] \<and>
   IsFlagSet QUICSESSION_FLAG_DESTROYED (SetFlag QUICSESSION_FLAG_DESTROYED True ack_example) \<and>
   AckedCryptoOffset NGTCP2_CRYPTO_LEVEL_INITIAL 3
     (SetFlag QUICSESSION_FLAG_DESTROYED True ack_example) =
     SetFlag QUICSESSION_FLAG_DESTROYED True ack_example"
  using AckedCryptoOffset_consumes_head
          [of ack_example NGTCP2_CRYPTO_LEVEL_INITIAL 3]
        AckedCryptoOffset_consumes_head
          [of "SetFlag QUICSESSION_FLAG_DESTROYED True ack_example" NGTCP2_CRYPTO_LEVEL_INITIAL 3]
  by (simp add: ack_example_def session0_def IsFlagSet_def SetFlag_def)

subsection \<open>Stream statistics\<close>

text \<open>
  C7 at a concrete input. A server session whose stream counters are all zero adds
  stream 0, which its peer (the client) opened. The switch on the origin counts the
  stream as inbound; the \<^verbatim>\<open>IncrementStat\<close> that follows the switch counts it as outbound
  as well, so both counters are 1 afterwards.
\<close>

theorem AddStream_peer_stream_counts_both:
  "peer_initiated session0 peer_stream_example \<and>
   streams_in_count (session_stats session0) = 0 \<and>
   streams_out_count (session_stats session0) = 0 \<and>
   streams_in_count (session_stats (AddStream peer_stream_example session0)) = 1 \<and>
   streams_out_count (session_stats (AddStream peer_stream_example session0)) = 1"
  by (simp add: AddStream_def peer_initiated_def peer_stream_example_def QuicStream_New_def
        session0_def bump_streams_in_def bump_streams_out_def bump_bidi_def bump_uni_def
        IncrementStat_def Let_def)

subsection \<open>Empty stream frames\<close>

text \<open>
  C8. A STREAM frame without data and without the fin flag for a stream id that is not
  in the stream table is dropped: \<^verbatim>\<open>ReceiveStreamData\<close> returns the session as it was, so
  no stream is created, the stream table is unchanged and nothing is appended to the
  trace (no listener event, no call into the transport library).
\<close>

theorem ReceiveStreamData_empty_frame_dropped:
  "FindStream i s = None \<Longrightarrow> ReceiveStreamData i 0 [] offset s = Some s"
  by (simp add: ReceiveStreamData_def)

theorem ReceiveStreamData_empty_frame_dropped_witness:
  "FindStream 4 session0 = None \<and>
   ReceiveStreamData 4 0 [] 0 session0 = Some session0 \<and>
   (\<exists>s'. ReceiveStreamData 4 0 [7] 0 session0 = Some s' \<and> FindStream 4 s' \<noteq> None)"
  using ReceiveStreamData_empty_frame_dropped [of 4 session0 0]
  by (simp add: ReceiveStreamData_def FindStream_def session0_def CreateStream_def
        IsFlagSet_def AddStream_def QuicStream_New_def log_action_def
        stream_ReceiveData_def bump_streams_in_def bump_streams_out_def bump_bidi_def
        bump_uni_def Let_def)

subsection \<open>The draining period\<close>

lemma WritePackets_draining:
  "IsInDrainingPeriod s \<Longrightarrow>
   WritePackets l s =
     (if in_ngtcp2_callback_scope s \<or> IsFlagSet QUICSESSION_FLAG_DESTROYED s then None
      else Some (True, s))"
  by (simp add: WritePackets.simps)

lemma SendConnectionClose_draining:
  "IsInDrainingPeriod s \<Longrightarrow>
   SendConnectionClose s = (if in_ngtcp2_callback_scope s then None else Some (True, s))"
  by (simp add: SendConnectionClose.simps)

lemma Receive_draining:
  "IsInDrainingPeriod s \<Longrightarrow>
   Receive nread s =
     (if IsFlagSet QUICSESSION_FLAG_DESTROYED s then Some (False, s)
      else if IsInClosingPeriod s then
        (if \<not> ShouldAttemptConnectionClose
                (IncrementConnectionCloseAttempts (count_bytes_received nread s))
         then Some (False, IncrementConnectionCloseAttempts (count_bytes_received nread s))
         else if in_ngtcp2_callback_scope s then None
         else Some (True, IncrementConnectionCloseAttempts (count_bytes_received nread s)))
      else Some (True, count_bytes_received nread s))"
  by (simp add: Receive_def Let_def SendConnectionClose_draining
        IsInClosingPeriod_def IsInDrainingPeriod_def count_bytes_received_def
        IncrementConnectionCloseAttempts_def)

text \<open>
  C2. In the draining period nothing is transmitted. \<^verbatim>\<open>Receive\<close> returns true with only
  the received bytes counted (when the session is neither destroyed nor closing) and
  never changes the send path; \<^verbatim>\<open>WritePackets\<close> returns true at once with the session
  untouched; \<^verbatim>\<open>SendConnectionClose\<close> returns true with the session untouched, so no
  packet is pushed to the send path. The only other outcome is the abort of a failed
  \<^verbatim>\<open>CHECK\<close> (a call from inside a transport callback or on a destroyed session).
\<close>

theorem draining_transmits_nothing:
  assumes "IsInDrainingPeriod s"
  shows "(\<not> IsFlagSet QUICSESSION_FLAG_DESTROYED s \<and> \<not> IsInClosingPeriod s \<longrightarrow>
            Receive nread s = Some (True, count_bytes_received nread s)) \<and>
         (\<forall>r s'. Receive nread s = Some (r, s') \<longrightarrow> send_path s' = send_path s) \<and>
         (\<not> in_ngtcp2_callback_scope s \<and> \<not> IsFlagSet QUICSESSION_FLAG_DESTROYED s \<longrightarrow>
            WritePackets l s = Some (True, s)) \<and>
         (\<forall>r s'. WritePackets l s = Some (r, s') \<longrightarrow> send_path s' = send_path s) \<and>
         (\<not> in_ngtcp2_callback_scope s \<longrightarrow> SendConnectionClose s = Some (True, s)) \<and>
         (\<forall>r s'. SendConnectionClose s = Some (r, s') \<longrightarrow> r \<and> send_path s' = send_path s)"
  using assms
  by (auto simp: Receive_draining WritePackets_draining SendConnectionClose_draining
        send_path_def count_bytes_received_def IncrementConnectionCloseAttempts_def
        split: if_splits)

theorem draining_transmits_nothing_witness:
  "IsInDrainingPeriod draining_example \<and>
   Receive 100 draining_example = Some (True, count_bytes_received 100 draining_example) \<and>
   send_path (count_bytes_received 100 draining_example) = ([[1, 2]], [], []) \<and>
   WritePackets ''ping'' draining_example = Some (True, draining_example) \<and>
   SendConnectionClose draining_example = Some (True, draining_example)"
  using draining_transmits_nothing [of draining_example 100 "''ping''"]
  by (simp add: draining_example_def session0_def IsInDrainingPeriod_def
        IsInClosingPeriod_def IsFlagSet_def send_path_def count_bytes_received_def)

subsection \<open>Destroying twice\<close>

lemma Destroy_destroyed:
  "Destroy s = Some s' \<Longrightarrow> IsFlagSet QUICSESSION_FLAG_DESTROYED s'"
  by (auto simp: Destroy_def RemoveFromSocket_def SetFlag_def IsFlagSet_def StopIdleTimer_def
        StopRetransmitTimer_def log_action_def Let_def
        split: if_splits option.splits)

text \<open>
  C9. \<^verbatim>\<open>Destroy\<close> on a destroyed session returns at once and leaves the whole session
  (flags, buffers, timers, socket, trace) as it is. A session that \<^verbatim>\<open>Destroy\<close> has
  returned from is destroyed, so a second call changes nothing: destroying twice is
  destroying once.
\<close>

theorem Destroy_idempotent:
  "(IsFlagSet QUICSESSION_FLAG_DESTROYED s \<longrightarrow> Destroy s = Some s) \<and>
   (\<forall>s'. Destroy s = Some s' \<longrightarrow> Destroy s' = Some s') \<and>
   Option.bind (Destroy s) Destroy = Destroy s"
proof -
  have a: "Destroy t = Some t" if "IsFlagSet QUICSESSION_FLAG_DESTROYED t" for t
    using that by (simp add: Destroy_def)
  have b: "Destroy s' = Some s'" if "Destroy s = Some s'" for s'
    using that by (intro a Destroy_destroyed)
  have c: "Option.bind (Destroy s) Destroy = Destroy s"
    by (cases "Destroy s") (simp_all add: b)
  from a b c show ?thesis by blast
qed

theorem Destroy_idempotent_witness:
  "\<not> IsFlagSet QUICSESSION_FLAG_DESTROYED destroy_example \<and>
   (\<exists>s'. Destroy destroy_example = Some s' \<and>
      IsFlagSet QUICSESSION_FLAG_DESTROYED s' \<and>
      trace s' = [ConnWritePkt, ConnWriteConnectionClose QUIC_ERROR_SESSION 0,
                  SocketSendPacket ''server connection close'' [1, 2, 3],
                  SocketRemoveSession] \<and>
      Destroy s' = Some s')"
proof -
  have "\<exists>s'. Destroy destroy_example = Some s' \<and>
      IsFlagSet QUICSESSION_FLAG_DESTROYED s' \<and>
      trace s' = [ConnWritePkt, ConnWriteConnectionClose QUIC_ERROR_SESSION 0,
                  SocketSendPacket ''server connection close'' [1, 2, 3],
                  SocketRemoveSession]"
    by (simp add: Destroy_def destroy_example_def session0_def IsFlagSet_def
        IsInClosingPeriod_def IsInDrainingPeriod_def SetLastError_default_def SetLastError_def
        SendConnectionClose.simps WritePackets.simps WritePackets_loop.simps
        conn_write_pkt_def log_action_def StartClosingPeriod_def StopRetransmitTimer_def
        UpdateIdleTimer_def Cancel_def conn_write_connection_close_def Push_def
        SendPacket_def Length_def ScheduleRetransmit_def UpdateRetransmitTimer_def
        Socket_SendPacket_def SetFlag_def StopIdleTimer_def RemoveFromSocket_def
        ngtcp2_codes Let_def)
  then show ?thesis
    using Destroy_idempotent [of destroy_example]
    by (auto simp: destroy_example_def session0_def IsFlagSet_def)
qed

subsection \<open>The closing period\<close>

lemma SendConnectionClose_closing_attempts:
  "IsInClosingPeriod s \<Longrightarrow> SendConnectionClose s = Some (r, s') \<Longrightarrow>
   connection_close_attempts s' = connection_close_attempts s \<and>
   connection_close_limit s' = connection_close_limit s"
  by (auto simp: SendConnectionClose.simps SendPacket_def UpdateIdleTimer_def Let_def
        conn_write_connection_close_def log_action_def Socket_SendPacket_def
        ScheduleRetransmit_def UpdateRetransmitTimer_def SetLastError_def
        IsInClosingPeriod_def IsInDrainingPeriod_def IsFlagSet_def
        split: if_splits option.splits prod.splits)

lemma Receive_closing:
  "\<not> IsFlagSet QUICSESSION_FLAG_DESTROYED s \<Longrightarrow> IsInClosingPeriod s \<Longrightarrow>
   Receive nread s =
     (if connection_close_limit s \<le> connection_close_attempts s + 1
      then Some (False, IncrementConnectionCloseAttempts (count_bytes_received nread s))
      else SendConnectionClose
             (IncrementConnectionCloseAttempts (count_bytes_received nread s)))"
  by (auto simp: Receive_def Let_def IsInClosingPeriod_def count_bytes_received_def
        IncrementConnectionCloseAttempts_def ShouldAttemptConnectionClose_def)

lemma server_resend_stored:
  assumes "side s = NGTCP2_CRYPTO_SIDE_SERVER" "IsInClosingPeriod s"
    "\<not> in_ngtcp2_callback_scope s" "\<not> IsInDrainingPeriod s"
    "\<not> IsFlagSet QUICSESSION_FLAG_SILENT_CLOSE s" "\<not> IsFlagSet QUICSESSION_FLAG_DESTROYED s"
    "conn_closebuf s \<noteq> []" "socket s \<noteq> None"
  shows "\<exists>r s'. SendConnectionClose s = Some (r, s') \<and>
           trace s' = trace s @
             [SocketSendPacket ''server connection close'' (concat (txbuf s) @ conn_closebuf s)]"
  using assms
  by (auto simp: SendConnectionClose.simps SendPacket_def UpdateIdleTimer_def Let_def
        log_action_def Socket_SendPacket_def Push_def Cancel_def Length_def
        ScheduleRetransmit_def UpdateRetransmitTimer_def SetLastError_def
        IsInClosingPeriod_def IsInDrainingPeriod_def IsFlagSet_def
        split: if_splits option.splits prod.splits)

lemma Receive_closing_live:
  assumes "\<not> IsFlagSet QUICSESSION_FLAG_DESTROYED s" and "IsInClosingPeriod s"
  shows "(\<forall>r s'. Receive nread s = Some (r, s') \<longrightarrow>
            connection_close_attempts s' = connection_close_attempts s + 1) \<and>
         (connection_close_limit s \<le> connection_close_attempts s + 1 \<longrightarrow>
            (\<exists>s'. Receive nread s = Some (False, s') \<and> send_path s' = send_path s)) \<and>
         (\<forall>r s'. Receive nread s = Some (r, s') \<and> send_path s' \<noteq> send_path s \<longrightarrow>
            connection_close_attempts s' < connection_close_limit s') \<and>
         (connection_close_attempts s + 1 < connection_close_limit s \<longrightarrow>
            Receive nread s =
              SendConnectionClose
                (IncrementConnectionCloseAttempts (count_bytes_received nread s))) \<and>
         (connection_close_attempts s + 1 < connection_close_limit s \<and>
          side s = NGTCP2_CRYPTO_SIDE_SERVER \<and> \<not> in_ngtcp2_callback_scope s \<and>
          \<not> IsInDrainingPeriod s \<and> \<not> IsFlagSet QUICSESSION_FLAG_SILENT_CLOSE s \<and>
          conn_closebuf s \<noteq> [] \<and> socket s \<noteq> None \<longrightarrow>
            (\<exists>r s'. Receive nread s = Some (r, s') \<and>
               trace s' = trace s @
                 [SocketSendPacket ''server connection close''
                    (concat (txbuf s) @ conn_closebuf s)]))"
proof -
  let ?s2 = "IncrementConnectionCloseAttempts (count_bytes_received nread s)"
  have s2: "connection_close_attempts ?s2 = connection_close_attempts s + 1"
    "IsInClosingPeriod ?s2" "send_path ?s2 = send_path s"
    "connection_close_limit ?s2 = connection_close_limit s"
    using assms
    by (simp_all add: IncrementConnectionCloseAttempts_def count_bytes_received_def
          IsInClosingPeriod_def send_path_def)
  note R = Receive_closing [OF assms, of nread]
  have 1: "connection_close_attempts s' = connection_close_attempts s + 1 \<and>
           connection_close_limit s' = connection_close_limit s"
    if "Receive nread s = Some (r, s')" for r s'
    using that R s2 SendConnectionClose_closing_attempts [of ?s2 r s']
    by (auto split: if_splits)
  have 2: "\<exists>s'. Receive nread s = Some (False, s') \<and> send_path s' = send_path s"
    if "connection_close_limit s \<le> connection_close_attempts s + 1"
    using that R s2 by simp
  have 3: "connection_close_attempts s' < connection_close_limit s'"
    if "Receive nread s = Some (r, s')" "send_path s' \<noteq> send_path s" for r s'
  proof (cases "connection_close_limit s \<le> connection_close_attempts s + 1")
    case True
    with that R s2 show ?thesis by simp
  next
    case False
    with 1 [OF that(1)] show ?thesis by simp
  qed
  have 4: "Receive nread s = SendConnectionClose ?s2"
    if "connection_close_attempts s + 1 < connection_close_limit s"
    using that R by simp
  have 5: "\<exists>r s'. Receive nread s = Some (r, s') \<and>
               trace s' = trace s @
                 [SocketSendPacket ''server connection close''
                    (concat (txbuf s) @ conn_closebuf s)]"
    if "connection_close_attempts s + 1 < connection_close_limit s"
      "side s = NGTCP2_CRYPTO_SIDE_SERVER" "\<not> in_ngtcp2_callback_scope s"
      "\<not> IsInDrainingPeriod s" "\<not> IsFlagSet QUICSESSION_FLAG_SILENT_CLOSE s"
      "conn_closebuf s \<noteq> []" "socket s \<noteq> None"
  proof -
    have "\<exists>r s'. SendConnectionClose ?s2 = Some (r, s') \<and>
           trace s' = trace ?s2 @
             [SocketSendPacket ''server connection close''
                (concat (txbuf ?s2) @ conn_closebuf ?s2)]"
      using that assms s2(2)
      by (intro server_resend_stored)
         (simp_all add: IncrementConnectionCloseAttempts_def count_bytes_received_def
            IsInDrainingPeriod_def IsFlagSet_def)
    then show ?thesis
      using 4 [OF that(1)]
      by (simp add: IncrementConnectionCloseAttempts_def count_bytes_received_def)
  qed
  from 1 2 3 4 5 show ?thesis by blast
qed

text \<open>
  C1, as the code has it. A packet handed to \<^verbatim>\<open>Receive\<close> in the closing period:
  \<^item> on a destroyed session \<^verbatim>\<open>Receive\<close> returns false at its first test and leaves the
    session as it was: the close-attempt counter is not incremented, nothing is sent;
  \<^item> on a session that is not destroyed, whenever \<^verbatim>\<open>Receive\<close> returns, the close-attempt
    counter is one higher;
  \<^item> when the incremented counter has reached the threshold, \<^verbatim>\<open>Receive\<close> returns false
    and the send path is as before: nothing is sent;
  \<^item> the send path changes only if the incremented counter is below the threshold;
  \<^item> below the threshold \<^verbatim>\<open>Receive\<close> is \<^verbatim>\<open>SendConnectionClose\<close>, and on a server that is
    free to send, what goes to the socket is the stored CONNECTION_CLOSE packet.
\<close>

theorem Receive_closing_period:
  assumes "IsInClosingPeriod s"
  shows "(IsFlagSet QUICSESSION_FLAG_DESTROYED s \<longrightarrow> Receive nread s = Some (False, s)) \<and>
         (\<not> IsFlagSet QUICSESSION_FLAG_DESTROYED s \<longrightarrow>
            (\<forall>r s'. Receive nread s = Some (r, s') \<longrightarrow>
               connection_close_attempts s' = connection_close_attempts s + 1) \<and>
            (connection_close_limit s \<le> connection_close_attempts s + 1 \<longrightarrow>
               (\<exists>s'. Receive nread s = Some (False, s') \<and> send_path s' = send_path s)) \<and>
            (\<forall>r s'. Receive nread s = Some (r, s') \<and> send_path s' \<noteq> send_path s \<longrightarrow>
               connection_close_attempts s' < connection_close_limit s') \<and>
            (connection_close_attempts s + 1 < connection_close_limit s \<longrightarrow>
               Receive nread s =
                 SendConnectionClose
                   (IncrementConnectionCloseAttempts (count_bytes_received nread s))) \<and>
            (connection_close_attempts s + 1 < connection_close_limit s \<and>
             side s = NGTCP2_CRYPTO_SIDE_SERVER \<and> \<not> in_ngtcp2_callback_scope s \<and>
             \<not> IsInDrainingPeriod s \<and> \<not> IsFlagSet QUICSESSION_FLAG_SILENT_CLOSE s \<and>
             conn_closebuf s \<noteq> [] \<and> socket s \<noteq> None \<longrightarrow>
               (\<exists>r s'. Receive nread s = Some (r, s') \<and>
                  trace s' = trace s @
                    [SocketSendPacket ''server connection close''
                       (concat (txbuf s) @ conn_closebuf s)])))"
proof (rule conjI; rule impI)
  assume "IsFlagSet QUICSESSION_FLAG_DESTROYED s"
  then show "Receive nread s = Some (False, s)" by (simp add: Receive_def)
next
  assume "\<not> IsFlagSet QUICSESSION_FLAG_DESTROYED s"
  from Receive_closing_live [OF this assms, of nread]
  show "(\<forall>r s'. Receive nread s = Some (r, s') \<longrightarrow>
               connection_close_attempts s' = connection_close_attempts s + 1) \<and>
            (connection_close_limit s \<le> connection_close_attempts s + 1 \<longrightarrow>
               (\<exists>s'. Receive nread s = Some (False, s') \<and> send_path s' = send_path s)) \<and>
            (\<forall>r s'. Receive nread s = Some (r, s') \<and> send_path s' \<noteq> send_path s \<longrightarrow>
               connection_close_attempts s' < connection_close_limit s') \<and>
            (connection_close_attempts s + 1 < connection_close_limit s \<longrightarrow>
               Receive nread s =
                 SendConnectionClose
                   (IncrementConnectionCloseAttempts (count_bytes_received nread s))) \<and>
            (connection_close_attempts s + 1 < connection_close_limit s \<and>
             side s = NGTCP2_CRYPTO_SIDE_SERVER \<and> \<not> in_ngtcp2_callback_scope s \<and>
             \<not> IsInDrainingPeriod s \<and> \<not> IsFlagSet QUICSESSION_FLAG_SILENT_CLOSE s \<and>
             conn_closebuf s \<noteq> [] \<and> socket s \<noteq> None \<longrightarrow>
               (\<exists>r s'. Receive nread s = Some (r, s') \<and>
                  trace s' = trace s @
                    [SocketSendPacket ''server connection close''
                       (concat (txbuf s) @ conn_closebuf s)]))" .
qed

theorem Receive_closing_period_witness:
  "IsInClosingPeriod closing_example \<and>
   \<not> IsFlagSet QUICSESSION_FLAG_DESTROYED closing_example \<and>
   (\<exists>r s'. Receive 40 closing_example = Some (r, s') \<and>
      connection_close_attempts s' = 1 \<and>
      trace s' = [SocketSendPacket ''server connection close'' [1, 2, 3]]) \<and>
   IsInClosingPeriod closing_exhausted_example \<and>
   \<not> IsFlagSet QUICSESSION_FLAG_DESTROYED closing_exhausted_example \<and>
   (\<exists>s'. Receive 40 closing_exhausted_example = Some (False, s') \<and>
      connection_close_attempts s' = 3 \<and> send_path s' = ([], [], [])) \<and>
   IsInClosingPeriod destroyed_closing_example \<and>
   IsFlagSet QUICSESSION_FLAG_DESTROYED destroyed_closing_example \<and>
   Receive 40 destroyed_closing_example = Some (False, destroyed_closing_example)"
proof -
  have h1: "\<not> IsFlagSet QUICSESSION_FLAG_DESTROYED closing_example"
    "IsInClosingPeriod closing_example"
    by (simp_all add: closing_example_def session0_def IsFlagSet_def IsInClosingPeriod_def)
  have h2: "\<not> IsFlagSet QUICSESSION_FLAG_DESTROYED closing_exhausted_example"
    "IsInClosingPeriod closing_exhausted_example"
    by (simp_all add: closing_exhausted_example_def closing_example_def session0_def
          IsFlagSet_def IsInClosingPeriod_def)
  have h3: "IsFlagSet QUICSESSION_FLAG_DESTROYED destroyed_closing_example"
    "IsInClosingPeriod destroyed_closing_example"
    by (simp_all add: destroyed_closing_example_def closing_example_def session0_def
          IsFlagSet_def IsInClosingPeriod_def)
  note T1 = Receive_closing_period [OF h1(2), of 40, THEN conjunct2, THEN mp, OF h1(1)]
  note T2 = Receive_closing_period [OF h2(2), of 40, THEN conjunct2, THEN mp, OF h2(1)]
  note T3 = Receive_closing_period [OF h3(2), of 40, THEN conjunct1, THEN mp, OF h3(1)]
  have "\<exists>r s'. Receive 40 closing_example = Some (r, s') \<and>
      trace s' = [SocketSendPacket ''server connection close'' [1, 2, 3]]"
    using T1 [THEN conjunct2, THEN conjunct2, THEN conjunct2, THEN conjunct2]
    by (simp add: closing_example_def session0_def IsFlagSet_def IsInDrainingPeriod_def)
  then obtain r s' where a: "Receive 40 closing_example = Some (r, s')"
      "trace s' = [SocketSendPacket ''server connection close'' [1, 2, 3]]"
    by blast
  have "connection_close_attempts s' = connection_close_attempts closing_example + 1"
    using T1 [THEN conjunct1] a(1) by blast
  then have "connection_close_attempts s' = 1"
    by (simp add: closing_example_def session0_def)
  with a have A: "\<exists>r s'. Receive 40 closing_example = Some (r, s') \<and>
      connection_close_attempts s' = 1 \<and>
      trace s' = [SocketSendPacket ''server connection close'' [1, 2, 3]]"
    by blast
  have "\<exists>s'. Receive 40 closing_exhausted_example = Some (False, s') \<and>
      send_path s' = send_path closing_exhausted_example"
    using T2 [THEN conjunct2, THEN conjunct1]
    by (simp add: closing_exhausted_example_def closing_example_def session0_def)
  then obtain t' where b: "Receive 40 closing_exhausted_example = Some (False, t')"
      "send_path t' = send_path closing_exhausted_example"
    by blast
  have "connection_close_attempts t' =
      connection_close_attempts closing_exhausted_example + 1"
    using T2 [THEN conjunct1] b(1) by blast
  then have "connection_close_attempts t' = 3"
    by (simp add: closing_exhausted_example_def closing_example_def session0_def)
  moreover have "send_path closing_exhausted_example = ([], [], [])"
    by (simp add: send_path_def closing_exhausted_example_def closing_example_def
          session0_def)
  ultimately have B: "\<exists>s'. Receive 40 closing_exhausted_example = Some (False, s') \<and>
      connection_close_attempts s' = 3 \<and> send_path s' = ([], [], [])"
    using b by auto
  from h1 h2 h3 A B T3 show ?thesis by blast
qed

text \<open>
  A packet of 40 bytes handed to a destroyed session whose connection is in the closing
  period: \<^verbatim>\<open>Receive\<close> returns false with the session as it was, so the close-attempt
  counter is 0 before and after, not 1.
\<close>

theorem Receive_closing_destroyed_counterexample:
  "IsInClosingPeriod destroyed_closing_example \<and>
   connection_close_attempts destroyed_closing_example = 0 \<and>
   Receive 40 destroyed_closing_example = Some (False, destroyed_closing_example) \<and>
   map_option (connection_close_attempts \<circ> snd) (Receive 40 destroyed_closing_example) \<noteq>
     Some (connection_close_attempts destroyed_closing_example + 1)"
  by (simp add: Receive_def destroyed_closing_example_def closing_example_def session0_def
        IsFlagSet_def IsInClosingPeriod_def)

subsection \<open>The per-stream write loop\<close>

lemma conn_writev_stream_logs:
  "conn_writev_stream i s = (r, s1) \<Longrightarrow>
   trace s1 = trace s @ [ConnWritevStream i] \<and> sendbuf s1 = sendbuf s \<and>
   txbuf s1 = txbuf s \<and> streams s1 = streams s \<and> flags s1 = flags s \<and>
   last_error s1 = last_error s"
  by (auto simp: conn_writev_stream_def log_action_def Let_def)

text \<open>
  C4. One turn of the loop of \<^verbatim>\<open>SendStreamData\<close>, for every answer \<open>nwrite\<close> of the
  library's \<^verbatim>\<open>writev\<close> call that is not positive (\<open>s1\<close> is the session right after the
  call, with nothing but the call added to the trace):
  \<^item> zero: the function returns true at once (no further call, nothing queued);
  \<^item> \<^verbatim>\<open>NGTCP2_ERR_PKT_NUM_EXHAUSTED\<close>: \<^verbatim>\<open>SilentClose\<close> runs and the function returns false;
    unless the closing flag was set already, the session then carries the flags
    silent-close and closing and the listener has the silent-close event;
  \<^item> \<^verbatim>\<open>NGTCP2_ERR_STREAM_DATA_BLOCKED\<close>, \<^verbatim>\<open>NGTCP2_ERR_STREAM_SHUT_WR\<close>,
    \<^verbatim>\<open>NGTCP2_ERR_STREAM_NOT_FOUND\<close>: the function returns true, the stream is skipped;
  \<^item> any other negative value: it becomes the session's last error (family session)
    and the function returns false.
\<close>

theorem SendStreamData_writev_results:
  assumes "conn_writev_stream (stream_id st) s = ((nwrite, ndatalen, dest), s1)"
  shows "(nwrite = 0 \<longrightarrow> SendStreamData_loop st v s = Some (True, s1)) \<and>
         (nwrite = NGTCP2_ERR_PKT_NUM_EXHAUSTED \<longrightarrow>
            SendStreamData_loop st v s = map_option (Pair False) (SilentClose False s1)) \<and>
         (nwrite = NGTCP2_ERR_STREAM_DATA_BLOCKED \<or> nwrite = NGTCP2_ERR_STREAM_SHUT_WR \<or>
          nwrite = NGTCP2_ERR_STREAM_NOT_FOUND \<longrightarrow>
            SendStreamData_loop st v s = Some (True, s1)) \<and>
         (nwrite < 0 \<and> nwrite \<noteq> NGTCP2_ERR_PKT_NUM_EXHAUSTED \<and>
          nwrite \<noteq> NGTCP2_ERR_STREAM_DATA_BLOCKED \<and> nwrite \<noteq> NGTCP2_ERR_STREAM_SHUT_WR \<and>
          nwrite \<noteq> NGTCP2_ERR_STREAM_NOT_FOUND \<longrightarrow>
            SendStreamData_loop st v s =
              Some (False, s1\<lparr>last_error := \<lparr>err_family = QUIC_ERROR_SESSION,
                                             err_code = nwrite\<rparr>\<rparr>)) \<and>
         trace s1 = trace s @ [ConnWritevStream (stream_id st)] \<and>
         sendbuf s1 = sendbuf s \<and> txbuf s1 = txbuf s \<and> streams s1 = streams s \<and>
         (\<not> IsFlagSet QUICSESSION_FLAG_CLOSING s \<longrightarrow>
            (\<exists>s2. SilentClose False s1 = Some s2 \<and>
                  flags s2 = flags s \<union> {QUICSESSION_FLAG_SILENT_CLOSE, QUICSESSION_FLAG_CLOSING} \<and>
                  sendbuf s2 = sendbuf s \<and> txbuf s2 = txbuf s \<and>
                  trace s2 = trace s @ [ConnWritevStream (stream_id st),
                     OnSessionSilentClose False (err_code (last_error s))
                       (err_family (last_error s))]))"
proof -
  note L = conn_writev_stream_logs [OF assms]
  have loop: "SendStreamData_loop st v s =
        (if nwrite = 0 then Some (True, s1)
         else if nwrite = NGTCP2_ERR_PKT_NUM_EXHAUSTED then
           (case SilentClose False s1 of None \<Rightarrow> None | Some s2 \<Rightarrow> Some (False, s2))
         else if nwrite = NGTCP2_ERR_STREAM_DATA_BLOCKED then Some (True, s1)
         else if nwrite = NGTCP2_ERR_STREAM_SHUT_WR then Some (True, s1)
         else if nwrite = NGTCP2_ERR_STREAM_NOT_FOUND then Some (True, s1)
         else Some (False, SetLastError QUIC_ERROR_SESSION nwrite s1))"
    if "nwrite \<le> 0"
    using that by (subst SendStreamData_loop.simps) (simp add: assms Let_def)
  have a: "nwrite = 0 \<longrightarrow> SendStreamData_loop st v s = Some (True, s1)"
    using loop by simp
  have b: "nwrite = NGTCP2_ERR_PKT_NUM_EXHAUSTED \<longrightarrow>
            SendStreamData_loop st v s = map_option (Pair False) (SilentClose False s1)"
    using loop by (simp add: ngtcp2_codes split: option.splits)
  have c: "nwrite = NGTCP2_ERR_STREAM_DATA_BLOCKED \<or> nwrite = NGTCP2_ERR_STREAM_SHUT_WR \<or>
          nwrite = NGTCP2_ERR_STREAM_NOT_FOUND \<longrightarrow>
            SendStreamData_loop st v s = Some (True, s1)"
    using loop by (auto simp: ngtcp2_codes)
  have d: "nwrite < 0 \<and> nwrite \<noteq> NGTCP2_ERR_PKT_NUM_EXHAUSTED \<and>
          nwrite \<noteq> NGTCP2_ERR_STREAM_DATA_BLOCKED \<and> nwrite \<noteq> NGTCP2_ERR_STREAM_SHUT_WR \<and>
          nwrite \<noteq> NGTCP2_ERR_STREAM_NOT_FOUND \<longrightarrow>
            SendStreamData_loop st v s =
              Some (False, s1\<lparr>last_error := \<lparr>err_family = QUIC_ERROR_SESSION,
                                             err_code = nwrite\<rparr>\<rparr>)"
    using loop by (simp add: SetLastError_def)
  have e: "\<not> IsFlagSet QUICSESSION_FLAG_CLOSING s \<longrightarrow>
            (\<exists>s2. SilentClose False s1 = Some s2 \<and>
                  flags s2 = flags s \<union> {QUICSESSION_FLAG_SILENT_CLOSE, QUICSESSION_FLAG_CLOSING} \<and>
                  sendbuf s2 = sendbuf s \<and> txbuf s2 = txbuf s \<and>
                  trace s2 = trace s @ [ConnWritevStream (stream_id st),
                     OnSessionSilentClose False (err_code (last_error s))
                       (err_family (last_error s))])"
    using L by (auto simp: SilentClose_def IsFlagSet_def SetFlag_def log_action_def Let_def)
  from a b c d e L show ?thesis by blast
qed

lemma writev_example_call:
  "conn_writev_stream (stream_id stream_example) (writev_example r) =
     ((r, 0, []),
      (writev_example r)\<lparr>trace := [ConnWritevStream 0],
        connection := (connection session0)\<lparr>writev_stream_script := []\<rparr>\<rparr>)"
  by (simp add: conn_writev_stream_def writev_example_def stream_example_def
        QuicStream_New_def session0_def log_action_def Let_def)

theorem SendStreamData_writev_results_witness:
  "SendStreamData stream_example (writev_example 0) =
     SendStreamData_loop stream_example [5] (writev_example 0) \<and>
   (\<exists>s'. SendStreamData_loop stream_example [5] (writev_example 0) = Some (True, s') \<and>
      trace s' = [ConnWritevStream 0]) \<and>
   (\<exists>s'. SendStreamData_loop stream_example [5]
            (writev_example NGTCP2_ERR_PKT_NUM_EXHAUSTED) = Some (False, s') \<and>
      flags s' = {QUICSESSION_FLAG_SILENT_CLOSE, QUICSESSION_FLAG_CLOSING}) \<and>
   (\<exists>s'. SendStreamData_loop stream_example [5]
            (writev_example NGTCP2_ERR_STREAM_SHUT_WR) = Some (True, s') \<and>
      streams s' = [(0, stream_example)]) \<and>
   (\<exists>s'. SendStreamData_loop stream_example [5] (writev_example (- 203)) = Some (False, s') \<and>
      last_error s' = \<lparr>err_family = QUIC_ERROR_SESSION, err_code = - 203\<rparr>)"
proof -
  note T = SendStreamData_writev_results [OF writev_example_call, of _ "[5]"]
  have 0: "SendStreamData stream_example (writev_example 0) =
     SendStreamData_loop stream_example [5] (writev_example 0)"
    by (simp add: SendStreamData_def writev_example_def stream_example_def
        QuicStream_New_def session0_def IsFlagSet_def IsInClosingPeriod_def
        IsInDrainingPeriod_def Let_def)
  have 1: "\<exists>s'. SendStreamData_loop stream_example [5] (writev_example 0) = Some (True, s') \<and>
      trace s' = [ConnWritevStream 0]"
    using T [of 0] by simp
  have 2: "\<exists>s'. SendStreamData_loop stream_example [5]
            (writev_example NGTCP2_ERR_PKT_NUM_EXHAUSTED) = Some (False, s') \<and>
      flags s' = {QUICSESSION_FLAG_SILENT_CLOSE, QUICSESSION_FLAG_CLOSING}"
    using T [of NGTCP2_ERR_PKT_NUM_EXHAUSTED]
    by (auto simp: writev_example_def session0_def IsFlagSet_def)
  have 3: "\<exists>s'. SendStreamData_loop stream_example [5]
            (writev_example NGTCP2_ERR_STREAM_SHUT_WR) = Some (True, s') \<and>
      streams s' = [(0, stream_example)]"
    using T [of NGTCP2_ERR_STREAM_SHUT_WR]
    by (simp add: writev_example_def session0_def)
  have 4: "\<exists>s'. SendStreamData_loop stream_example [5] (writev_example (- 203)) =
        Some (False, s') \<and>
      last_error s' = \<lparr>err_family = QUIC_ERROR_SESSION, err_code = - 203\<rparr>"
    using T [of "- 203"] by (simp add: ngtcp2_codes)
  from 0 1 2 3 4 show ?thesis by blast
qed
subsection \<open>The send routines as sequences of steps\<close>

lemmas ns_then = converse_rtranclp_into_rtranclp [of nonstream_step]
lemmas ns_trans = rtranclp_trans [of nonstream_step]

lemma WritePackets_loop_steps:
  "WritePackets_loop l s = Some (r, s') \<Longrightarrow> l \<noteq> ''pending session data'' \<Longrightarrow>
   nonstream_step\<^sup>*\<^sup>* s s'"
proof (induction l s arbitrary: r s' rule: WritePackets_loop.induct)
  case (1 l s)
  obtain nwrite dest s1 where c: "conn_write_pkt s = ((nwrite, dest), s1)"
    by (metis prod.collapse)
  have st1: "nonstream_step s s1"
    using nonstream_step.write_pkt [of s] c by simp
  show ?case
  proof (cases "nwrite \<le> 0")
    case True
    with "1.prems" c have "s' = s1 \<or> SilentClose False s1 = Some s' \<or>
        s' = SetLastError QUIC_ERROR_SESSION nwrite s1"
      by (subst (asm) WritePackets_loop.simps)
         (auto simp: Let_def split: if_splits option.splits)
    then have "nonstream_step\<^sup>*\<^sup>* s1 s'"
      by (auto intro: nonstream_step.silent nonstream_step.set_error)
    with st1 show ?thesis by (rule ns_then)
  next
    case False
    let ?s2 = "s1\<lparr>sendbuf := Push (take (nat nwrite) dest) (sendbuf s1)\<rparr>"
    from "1.prems" c False obtain ok s3 where
      sp: "SendPacket l ?s2 = Some (ok, s3)" and
      rest: "if \<not> ok then Some (False, s3) = Some (r, s') else WritePackets_loop l s3 = Some (r, s')"
      by (subst (asm) WritePackets_loop.simps)
         (auto simp: Let_def split: if_splits option.splits)
    have st3: "nonstream_step\<^sup>*\<^sup>* s s3"
      using st1 nonstream_step.set_sendbuf [of s1] nonstream_step.send [OF sp "1.prems"(2)]
      by (meson ns_then rtranclp.rtrancl_refl)
    show ?thesis
    proof (cases ok)
      case True
      with rest have "WritePackets_loop l s3 = Some (r, s')" by simp
      from "1.IH" [OF refl refl refl refl _ _ refl _ this "1.prems"(2)] c False sp True
      have "nonstream_step\<^sup>*\<^sup>* s3 s'" by simp
      with st3 show ?thesis by (rule ns_trans)
    next
      case False
      with rest st3 show ?thesis by simp
    qed
  qed
qed

lemma StartClosingPeriod_steps:
  assumes "StartClosingPeriod s = Some (r, s')"
  shows "nonstream_step\<^sup>*\<^sup>* s s'"
proof (cases "IsFlagSet QUICSESSION_FLAG_DESTROYED s \<or> IsInClosingPeriod s")
  case True
  with assms have "s' = s" by (auto simp: StartClosingPeriod_def split: if_splits)
  then show ?thesis by simp
next
  case False
  let ?s1 = "StopRetransmitTimer s"
  let ?s2 = "UpdateIdleTimer ?s1"
  let ?s3 = "?s2\<lparr>sendbuf := Cancel (sendbuf ?s2)\<rparr>"
  obtain nwrite dest s4 where c:
    "conn_write_connection_close (last_error ?s3) ?s3 = ((nwrite, dest), s4)"
    by (metis prod.collapse)
  let ?s5 = "s4\<lparr>conn_closebuf := dest\<rparr>"
  have a: "nonstream_step\<^sup>*\<^sup>* s ?s5"
  proof -
    have "nonstream_step s ?s1" by (rule nonstream_step.stop_retransmit)
    moreover have "nonstream_step ?s1 ?s2" by (rule nonstream_step.idle_timer)
    moreover have "nonstream_step ?s2 ?s3" by (rule nonstream_step.set_sendbuf)
    moreover have "nonstream_step ?s3 s4"
      using nonstream_step.write_close [of ?s3 "last_error ?s3"] c by simp
    moreover have "nonstream_step s4 ?s5" by (rule nonstream_step.set_closebuf)
    ultimately show ?thesis by (meson ns_then rtranclp.rtrancl_refl)
  qed
  from assms False c have "SilentClose False ?s5 = Some s' \<or>
      s' = SetLastError QUIC_ERROR_SESSION nwrite ?s5 \<or>
      s' = ?s5\<lparr>conn_closebuf := take (nat nwrite) dest\<rparr>"
    by (auto simp: StartClosingPeriod_def Let_def split: if_splits option.splits)
  then have "nonstream_step ?s5 s'"
  proof (elim disjE)
    assume "s' = ?s5\<lparr>conn_closebuf := take (nat nwrite) dest\<rparr>"
    then show ?thesis
      using nonstream_step.set_closebuf [of ?s5 "take (nat nwrite) dest"] by simp
  qed (auto intro: nonstream_step.silent nonstream_step.set_error)
  with a show ?thesis by (meson ns_trans r_into_rtranclp)
qed


lemma WritePackets_open_steps:
  assumes "\<not> IsInClosingPeriod s" "WritePackets l s = Some (r, s')"
    "l \<noteq> ''pending session data''"
  shows "nonstream_step\<^sup>*\<^sup>* s s'"
proof (cases "IsInDrainingPeriod s")
  case True
  with assms have "s' = s" by (auto simp: WritePackets.simps split: if_splits)
  then show ?thesis by simp
next
  case False
  with assms have "WritePackets_loop l s = Some (r, s')"
    by (auto simp: WritePackets.simps split: if_splits)
  then show ?thesis using assms(3) by (rule WritePackets_loop_steps)
qed

lemma SendConnectionClose_steps:
  assumes "SendConnectionClose s = Some (r, s')"
  shows "nonstream_step\<^sup>*\<^sup>* s s'"
proof (cases "IsInDrainingPeriod s \<or> IsFlagSet QUICSESSION_FLAG_SILENT_CLOSE s")
  case True
  with assms have "s' = s"
    by (subst (asm) SendConnectionClose.simps) (auto split: if_splits)
  then show ?thesis by simp
next
  case quiet: False
  show ?thesis
  proof (cases "side s = NGTCP2_CRYPTO_SIDE_SERVER")
    case server: True
    define ph where "ph = (if \<not> IsInClosingPeriod s then
                    (case WritePackets ''server connection close - write packets'' s of
                       None \<Rightarrow> None
                     | Some (ok, s1) \<Rightarrow>
                         if \<not> ok then Some (False, s1) else StartClosingPeriod s1)
                  else Some (True, s))"
    from assms quiet server obtain ok s2 where ph: "ph = Some (ok, s2)"
      and fin: "if \<not> ok then s' = s2
                else SendPacket ''server connection close''
                   ((UpdateIdleTimer s2)\<lparr>sendbuf :=
                       Push (conn_closebuf (UpdateIdleTimer s2))
                         (Cancel (sendbuf (UpdateIdleTimer s2)))\<rparr>) = Some (r, s')"
      unfolding ph_def
      by (subst (asm) SendConnectionClose.simps)
         (auto simp: Let_def split: if_splits option.splits)
    have p: "nonstream_step\<^sup>*\<^sup>* s s2"
    proof (cases "IsInClosingPeriod s")
      case True
      with ph show ?thesis by (simp add: ph_def)
    next
      case False
      with ph obtain ok1 s1 where
        w: "WritePackets ''server connection close - write packets'' s = Some (ok1, s1)"
        and k: "if \<not> ok1 then s2 = s1 else StartClosingPeriod s1 = Some (ok, s2)"
        by (auto simp: ph_def split: option.splits if_splits)
      have "nonstream_step\<^sup>*\<^sup>* s s1"
        using False w by (rule WritePackets_open_steps) simp
      moreover have "nonstream_step\<^sup>*\<^sup>* s1 s2"
        using k by (auto dest: StartClosingPeriod_steps split: if_splits)
      ultimately show ?thesis by (rule ns_trans)
    qed
    show ?thesis
    proof (cases ok)
      case False
      with fin p show ?thesis by simp
    next
      case True
      let ?s3 = "UpdateIdleTimer s2"
      let ?s4 = "?s3\<lparr>sendbuf := Push (conn_closebuf ?s3) (Cancel (sendbuf ?s3))\<rparr>"
      from True fin have sp: "SendPacket ''server connection close'' ?s4 = Some (r, s')"
        by simp
      have "nonstream_step s2 ?s3" by (rule nonstream_step.idle_timer)
      moreover have "nonstream_step ?s3 ?s4" by (rule nonstream_step.set_sendbuf)
      moreover have "nonstream_step ?s4 s'"
        using sp by (rule nonstream_step.send) simp
      ultimately have "nonstream_step\<^sup>*\<^sup>* s2 s'"
        by (meson ns_then rtranclp.rtrancl_refl)
      with p show ?thesis by (rule ns_trans)
    qed
  next
    case client: False
    let ?s1 = "UpdateIdleTimer s"
    let ?s2 = "?s1\<lparr>sendbuf := Cancel (sendbuf ?s1)\<rparr>"
    have c2: "IsInClosingPeriod ?s2 = IsInClosingPeriod s"
      by (simp add: IsInClosingPeriod_def UpdateIdleTimer_def Let_def)
    have p0: "nonstream_step\<^sup>*\<^sup>* s ?s2"
      using nonstream_step.idle_timer [of s] nonstream_step.set_sendbuf [of ?s1]
      by (meson ns_then rtranclp.rtrancl_refl)
    define ph where "ph = (if \<not> IsInClosingPeriod ?s2 then
                    WritePackets ''client connection close - write packets'' ?s2
                  else Some (True, ?s2))"
    from assms quiet client obtain ok s3 where ph: "ph = Some (ok, s3)"
      and fin: "if \<not> ok then s' = s3
                else (let ((nwrite, dest), s4) = conn_write_connection_close (last_error ?s2) s3 in
                  if nwrite < 0
                  then Some (False, SetLastError QUIC_ERROR_SESSION nwrite s4)
                  else
                    SendPacket ''client connection close''
                      (s4\<lparr>sendbuf := Push (take (nat nwrite) dest) (sendbuf s4)\<rparr>)) = Some (r, s')"
      unfolding ph_def
      by (subst (asm) SendConnectionClose.simps)
         (auto simp: Let_def split: if_splits option.splits)
    have p: "nonstream_step\<^sup>*\<^sup>* ?s2 s3"
    proof (cases "IsInClosingPeriod s")
      case True
      with ph c2 show ?thesis by (simp add: ph_def)
    next
      case False
      with ph c2 have
        w: "WritePackets ''client connection close - write packets'' ?s2 = Some (ok, s3)"
        by (auto simp: ph_def)
      from False c2 have "\<not> IsInClosingPeriod ?s2" by simp
      then show ?thesis using w by (rule WritePackets_open_steps) simp
    qed
    show ?thesis
    proof (cases ok)
      case False
      with fin p p0 show ?thesis by (auto intro: ns_trans)
    next
      case True
      obtain nwrite dest s4 where
        c: "conn_write_connection_close (last_error ?s2) s3 = ((nwrite, dest), s4)"
        by (metis prod.collapse)
      have q: "nonstream_step s3 s4"
        using nonstream_step.write_close [of s3 "last_error ?s2"] c by simp
      let ?s5 = "s4\<lparr>sendbuf := Push (take (nat nwrite) dest) (sendbuf s4)\<rparr>"
      from True fin c have "s' = SetLastError QUIC_ERROR_SESSION nwrite s4 \<or>
          SendPacket ''client connection close'' ?s5 = Some (r, s')"
        by (auto simp: Let_def split: if_splits)
      then have "nonstream_step\<^sup>*\<^sup>* s4 s'"
      proof
        assume "s' = SetLastError QUIC_ERROR_SESSION nwrite s4"
        then show ?thesis using nonstream_step.set_error [of s4] by auto
      next
        assume sp: "SendPacket ''client connection close'' ?s5 = Some (r, s')"
        have "nonstream_step s4 ?s5" by (rule nonstream_step.set_sendbuf)
        moreover have "nonstream_step ?s5 s'" using sp by (rule nonstream_step.send) simp
        ultimately show ?thesis by (meson ns_then rtranclp.rtrancl_refl)
      qed
      with q have "nonstream_step\<^sup>*\<^sup>* s3 s'" by (rule ns_then)
      with p0 p show ?thesis by (meson ns_trans)
    qed
  qed
qed

lemma WritePackets_steps:
  assumes "WritePackets l s = Some (r, s')" "l \<noteq> ''pending session data''"
  shows "nonstream_step\<^sup>*\<^sup>* s s'"
proof (cases "IsInClosingPeriod s")
  case False
  then show ?thesis using assms by (rule WritePackets_open_steps)
next
  case True
  with assms have "s' = s \<or> SendConnectionClose s = Some (r, s')"
    by (auto simp: WritePackets.simps split: if_splits)
  then show ?thesis by (auto dest: SendConnectionClose_steps)
qed

lemma HandleError_steps:
  assumes "HandleError s = Some s'"
  shows "nonstream_step\<^sup>*\<^sup>* s s'"
proof (cases "QuicSession_HandleError s = Some s'")
  case False
  with assms have "s' = s" by (auto simp: HandleError_def split: if_splits)
  then show ?thesis by simp
next
  case True
  let ?s1 = "s\<lparr>sendbuf := Cancel (sendbuf s)\<rparr>"
  from True obtain ok s2 where c: "SendConnectionClose ?s1 = Some (ok, s2)"
    and k: "if \<not> ok
          then ImmediateClose (SetLastError QUIC_ERROR_SESSION NGTCP2_ERR_INTERNAL s2) = Some s'
          else s' = s2"
    by (auto simp: QuicSession_HandleError_def split: option.splits if_splits)
  have "nonstream_step s ?s1" by (rule nonstream_step.set_sendbuf)
  moreover have "nonstream_step\<^sup>*\<^sup>* ?s1 s2" using c by (rule SendConnectionClose_steps)
  moreover have "nonstream_step\<^sup>*\<^sup>* s2 s'"
  proof (cases ok)
    case True
    with k show ?thesis by simp
  next
    case False
    with k have i: "ImmediateClose (SetLastError QUIC_ERROR_SESSION NGTCP2_ERR_INTERNAL s2) = Some s'"
      by simp
    have "nonstream_step s2 (SetLastError QUIC_ERROR_SESSION NGTCP2_ERR_INTERNAL s2)"
      by (rule nonstream_step.set_error)
    moreover have "nonstream_step (SetLastError QUIC_ERROR_SESSION NGTCP2_ERR_INTERNAL s2) s'"
      using i by (rule nonstream_step.immediate)
    ultimately show ?thesis by (meson ns_then rtranclp.rtrancl_refl)
  qed
  ultimately show ?thesis by (meson ns_then ns_trans)
qed


lemma SendStreamData_loop_steps_after_call:
  "SendStreamData_loop st v s = Some (r, s') \<Longrightarrow>
   (stream_step (stream_id st))\<^sup>*\<^sup>* (snd (conn_writev_stream (stream_id st) s)) s'"
proof (induction st v s arbitrary: r s' rule: SendStreamData_loop.induct)
  case (1 st v s)
  let ?i = "stream_id st"
  obtain nwrite ndatalen dest s1 where
    c: "conn_writev_stream ?i s = ((nwrite, ndatalen, dest), s1)"
    by (metis prod.collapse)
  have st1: "stream_step ?i s s1"
    using stream_step.writev [of ?i s] c by simp
  show ?case
  proof (cases "nwrite \<le> 0")
    case True
    with "1.prems" c have "s' = s1 \<or> SilentClose False s1 = Some s' \<or>
        s' = SetLastError QUIC_ERROR_SESSION nwrite s1"
      by (subst (asm) SendStreamData_loop.simps)
         (auto simp: Let_def split: if_splits option.splits)
    then have "(stream_step ?i)\<^sup>*\<^sup>* s1 s'"
      by (auto intro: stream_step.silent stream_step.set_error)
    with c show ?thesis by simp
  next
    case False
    define v1 where "v1 = (if ndatalen > 0 then Consume v (nat ndatalen) else v)"
    define s2 where "s2 = (if ndatalen > 0 then stream_Commit ?i (nat ndatalen) s1 else s1)"
    define s3 where "s3 = s2\<lparr>sendbuf := Push (take (nat nwrite) dest) (sendbuf s2)\<rparr>"
    from "1.prems" c False obtain ok s4 where
      sp: "SendPacket ''stream data'' s3 = Some (ok, s4)" and
      rest: "if \<not> ok then s' = s4
             else if IsEmpty v1 then
               s' = (if \<not> writable st then stream_SetFinSent ?i s4 else s4)
             else SendStreamData_loop st v1 s4 = Some (r, s')"
      unfolding v1_def s2_def s3_def
      by (subst (asm) SendStreamData_loop.simps)
         (auto simp: Let_def split: if_splits option.splits)
    have "(stream_step ?i)\<^sup>*\<^sup>* s1 s2"
      unfolding s2_def by (auto intro: stream_step.commit)
    moreover have "stream_step ?i s2 s3"
      unfolding s3_def by (rule stream_step.set_sendbuf)
    moreover have "stream_step ?i s3 s4"
      using sp by (rule stream_step.send)
    ultimately have st4: "(stream_step ?i)\<^sup>*\<^sup>* s1 s4"
      by (meson rtranclp.rtrancl_into_rtrancl)
    show ?thesis
    proof (cases "ok \<and> \<not> IsEmpty v1")
      case True
      with rest have l: "SendStreamData_loop st v1 s4 = Some (r, s')" by simp
      have e: "fst (fst (conn_writev_stream ?i s)) = nwrite"
        "fst (snd (fst (conn_writev_stream ?i s))) = ndatalen"
        "snd (snd (fst (conn_writev_stream ?i s))) = dest"
        "snd (conn_writev_stream ?i s) = s1"
        using c by simp_all
      have "(stream_step ?i)\<^sup>*\<^sup>* (snd (conn_writev_stream ?i s4)) s'"
      proof (rule "1.IH" [OF refl refl refl refl refl _ refl refl refl _ refl])
        show "\<not> fst (fst (conn_writev_stream ?i s)) \<le> 0"
          using False e by simp
        show "SendPacket ''stream data''
           ((if 0 < fst (snd (fst (conn_writev_stream (stream_id st) s)))
             then stream_Commit (stream_id st)
                   (nat (fst (snd (fst (conn_writev_stream (stream_id st) s)))))
                   (snd (conn_writev_stream (stream_id st) s))
             else snd (conn_writev_stream (stream_id st) s))
            \<lparr>sendbuf :=
               Push (take (nat (fst (fst (conn_writev_stream (stream_id st) s))))
                      (snd (snd (fst (conn_writev_stream (stream_id st) s)))))
                (sendbuf
                  (if 0 < fst (snd (fst (conn_writev_stream (stream_id st) s)))
                   then stream_Commit (stream_id st)
                         (nat (fst (snd (fst (conn_writev_stream (stream_id st) s)))))
                         (snd (conn_writev_stream (stream_id st) s))
                   else snd (conn_writev_stream (stream_id st) s)))\<rparr>) =
          Some (ok, s4)"
          using sp unfolding e s3_def s2_def .
        show "\<not> \<not> ok" using True by simp
        show "\<not> IsEmpty (if 0 < fst (snd (fst (conn_writev_stream (stream_id st) s)))
             then Consume v (nat (fst (snd (fst (conn_writev_stream (stream_id st) s))))) else v)"
          using True unfolding e v1_def by simp
        show "SendStreamData_loop st
           (if 0 < fst (snd (fst (conn_writev_stream (stream_id st) s)))
             then Consume v (nat (fst (snd (fst (conn_writev_stream (stream_id st) s))))) else v)
           s4 = Some (r, s')"
          using l unfolding e v1_def .
      qed
      then have "(stream_step ?i)\<^sup>*\<^sup>* s4 s'"
        using stream_step.writev [of ?i s4]
        by (meson converse_rtranclp_into_rtranclp)
      with st4 c show ?thesis by (auto intro: rtranclp_trans)
    next
      case False
      with rest have "s' = s4 \<or> s' = stream_SetFinSent ?i s4"
        by (auto split: if_splits)
      then have "(stream_step ?i)\<^sup>*\<^sup>* s4 s'"
        by (auto intro: stream_step.fin)
      with st4 c show ?thesis by (auto intro: rtranclp_trans)
    qed
  qed
qed

lemma SendStreamData_loop_steps:
  "SendStreamData_loop st v s = Some (r, s') \<Longrightarrow> (stream_step (stream_id st))\<^sup>*\<^sup>* s s'"
  using SendStreamData_loop_steps_after_call [of st v s r s']
    stream_step.writev [of "stream_id st" s]
  by (meson converse_rtranclp_into_rtranclp)


lemma SendStreamData_steps:
  "SendStreamData st s = Some (r, s') \<Longrightarrow> (stream_step (stream_id st))\<^sup>*\<^sup>* s s'"
  by (auto simp: SendStreamData_def Let_def split: if_splits dest: SendStreamData_loop_steps)


subsection \<open>What the steps add to the trace and what they leave alone\<close>

lemma trace_grows_refl [simp]: "trace_grows P s s"
  by (simp add: trace_grows_def)

lemma trace_grows_trans:
  "trace_grows P a b \<Longrightarrow> trace_grows P b c \<Longrightarrow> trace_grows P a c"
  by (auto simp: trace_grows_def)

lemma trace_grows_same: "trace s' = trace s \<Longrightarrow> trace_grows P s s'"
  by (simp add: trace_grows_def)

lemma trace_grows_one: "trace s' = trace s @ [a] \<Longrightarrow> P a \<Longrightarrow> trace_grows P s s'"
  by (simp add: trace_grows_def)

lemma trace_grows_mono:
  "trace_grows P s s' \<Longrightarrow> (\<And>a. P a \<Longrightarrow> Q a) \<Longrightarrow> trace_grows Q s s'"
  by (auto simp: trace_grows_def list_all_iff)

lemma SendPacket_trace:
  "SendPacket l s = Some (r, s') \<Longrightarrow>
   trace s' = trace s \<or> (\<exists>b. trace s' = trace s @ [SocketSendPacket l b])"
  by (auto simp: SendPacket_def Socket_SendPacket_def ScheduleRetransmit_def
        UpdateRetransmitTimer_def SetLastError_def Let_def
        split: if_splits option.splits)

lemma SilentClose_trace:
  "SilentClose b s = Some s' \<Longrightarrow> \<exists>c f. trace s' = trace s @ [OnSessionSilentClose b c f]"
  by (auto simp: SilentClose_def SetFlag_def log_action_def Let_def split: if_splits)

lemma ImmediateClose_trace:
  "ImmediateClose s = Some s' \<Longrightarrow> \<exists>c f. trace s' = trace s @ [OnSessionClose c f]"
  by (auto simp: ImmediateClose_def SetFlag_def log_action_def Let_def split: if_splits)

lemma nonstream_step_grows:
  "nonstream_step s s' \<Longrightarrow> trace_grows (\<lambda>a. \<not> is_writev a \<and> \<not> is_flush a) s s'"
proof (induction rule: nonstream_step.induct)
  case (send l s r s')
  from SendPacket_trace [OF send(1)] show ?case
  proof
    assume "trace s' = trace s"
    then show ?thesis by (rule trace_grows_same)
  next
    assume "\<exists>b. trace s' = trace s @ [SocketSendPacket l b]"
    then obtain b where "trace s' = trace s @ [SocketSendPacket l b]" ..
    then show ?thesis
      using send(2) by (simp add: trace_grows_def is_writev_def is_flush_def)
  qed
next
  case (silent b s s')
  from SilentClose_trace [OF this] show ?case
    by (auto simp: trace_grows_def is_writev_def is_flush_def)
next
  case (immediate s s')
  from ImmediateClose_trace [OF this] show ?case
    by (auto simp: trace_grows_def is_writev_def is_flush_def)
qed (simp_all add: trace_grows_def conn_write_pkt_def conn_write_connection_close_def
       log_action_def Let_def SetLastError_def UpdateIdleTimer_def StopRetransmitTimer_def
       is_writev_def is_flush_def)

lemma nonstream_steps_grow:
  "nonstream_step\<^sup>*\<^sup>* s s' \<Longrightarrow> trace_grows (\<lambda>a. \<not> is_writev a \<and> \<not> is_flush a) s s'"
  by (induction rule: rtranclp_induct)
     (auto intro: trace_grows_trans nonstream_step_grows)

lemma stream_step_grows:
  "stream_step i s s' \<Longrightarrow>
   trace_grows (\<lambda>a. \<not> is_lib_write a \<and> \<not> is_flush a \<and> (is_writev a \<longrightarrow> a = ConnWritevStream i))
     s s'"
proof (induction rule: stream_step.induct)
  case (send s r s' i)
  from SendPacket_trace [OF send(1)] show ?case
  proof
    assume "trace s' = trace s"
    then show ?thesis by (rule trace_grows_same)
  next
    assume "\<exists>b. trace s' = trace s @ [SocketSendPacket ''stream data'' b]"
    then obtain b where "trace s' = trace s @ [SocketSendPacket ''stream data'' b]" ..
    then show ?thesis
      by (simp add: trace_grows_def is_writev_def is_flush_def is_lib_write_def)
  qed
next
  case (silent b s s' i)
  from SilentClose_trace [OF this] show ?case
    by (auto simp: trace_grows_def is_writev_def is_flush_def is_lib_write_def)
qed (simp_all add: trace_grows_def conn_writev_stream_def log_action_def Let_def
       stream_Commit_def update_stream_def stream_SetFinSent_def SetLastError_def
       is_writev_def is_flush_def is_lib_write_def)

lemma stream_steps_grow:
  "(stream_step i)\<^sup>*\<^sup>* s s' \<Longrightarrow>
   trace_grows (\<lambda>a. \<not> is_lib_write a \<and> \<not> is_flush a \<and> (is_writev a \<longrightarrow> a = ConnWritevStream i))
     s s'"
  by (induction rule: rtranclp_induct)
     (auto intro: trace_grows_trans stream_step_grows)

lemma send_frame_simps [simp]:
  "send_frame (snd (conn_write_pkt s)) = send_frame s"
  "send_frame (snd (conn_write_connection_close e s)) = send_frame s"
  "send_frame (snd (conn_writev_stream i s)) = send_frame s"
  "send_frame (s\<lparr>sendbuf := b\<rparr>) = send_frame s"
  "send_frame (s\<lparr>conn_closebuf := cb\<rparr>) = send_frame s"
  "send_frame (SetLastError f c s) = send_frame s"
  "send_frame (UpdateIdleTimer s) = send_frame s"
  "send_frame (StopRetransmitTimer s) = send_frame s"
  "send_frame (stream_Commit i n s) = send_frame s"
  "send_frame (stream_SetFinSent i s) = send_frame s"
  by (simp_all add: send_frame_def conn_write_pkt_def conn_write_connection_close_def
        conn_writev_stream_def log_action_def Let_def SetLastError_def UpdateIdleTimer_def
        StopRetransmitTimer_def stream_Commit_def stream_SetFinSent_def update_stream_def)

lemma SendPacket_frame:
  "SendPacket l s = Some (r, s') \<Longrightarrow> send_frame s' = send_frame s"
  by (auto simp: SendPacket_def send_frame_def Socket_SendPacket_def ScheduleRetransmit_def
        UpdateRetransmitTimer_def SetLastError_def Let_def
        split: if_splits option.splits)

lemma SilentClose_frame:
  "SilentClose b s = Some s' \<Longrightarrow> send_frame s' = send_frame s"
  by (auto simp: SilentClose_def send_frame_def SetFlag_def log_action_def Let_def
        split: if_splits)

lemma ImmediateClose_frame:
  "ImmediateClose s = Some s' \<Longrightarrow> send_frame s' = send_frame s"
  by (auto simp: ImmediateClose_def send_frame_def SetFlag_def log_action_def Let_def
        split: if_splits)

lemma nonstream_steps_frame:
  "nonstream_step\<^sup>*\<^sup>* s s' \<Longrightarrow> send_frame s' = send_frame s"
proof (induction rule: rtranclp_induct)
  case (step y z)
  from step(2) have "send_frame z = send_frame y"
    by (induction rule: nonstream_step.induct)
       (simp_all add: SendPacket_frame SilentClose_frame ImmediateClose_frame)
  with step show ?case by simp
qed simp

lemma stream_steps_frame:
  "(stream_step i)\<^sup>*\<^sup>* s s' \<Longrightarrow> send_frame s' = send_frame s"
proof (induction rule: rtranclp_induct)
  case (step y z)
  from step(2) have "send_frame z = send_frame y"
    by (induction rule: stream_step.induct)
       (simp_all add: SendPacket_frame SilentClose_frame)
  with step show ?case by simp
qed simp


subsection \<open>The order of \<^verbatim>\<open>SendPendingData\<close>\<close>

lemma writev_ids_append: "writev_ids (a @ b) = writev_ids a @ writev_ids b"
  by (induction a rule: writev_ids.induct) simp_all

lemma writev_ids_none: "list_all (\<lambda>a. \<not> is_writev a) t \<Longrightarrow> writev_ids t = []"
  by (induction t rule: writev_ids.induct) (simp_all add: is_writev_def)

lemma writev_ids_only:
  "list_all (\<lambda>a. is_writev a \<longrightarrow> a = ConnWritevStream i) t \<Longrightarrow> set (writev_ids t) \<subseteq> {i}"
  by (induction t rule: writev_ids.induct) (simp_all add: is_writev_def)

lemma writev_ids_mem: "i \<in> set (writev_ids t) \<longleftrightarrow> ConnWritevStream i \<in> set t"
  by (induction t rule: writev_ids.induct) auto

lemma follows_tl_weaken:
  "(follows (x # xs) tab \<longrightarrow> follows xs tab) \<and> (follows ys tab \<longrightarrow> follows ys (i # tab))"
proof (induction tab arbitrary: x xs ys i)
  case Nil
  show ?case by (cases ys) simp_all
next
  case (Cons j tab)
  have tl: "follows zs (j # tab)" if "follows (z # zs) (j # tab)" for z zs
  proof (cases "z = j")
    case True
    with that show ?thesis by simp
  next
    case False
    with that have "follows (z # zs) tab" by simp
    with Cons [of z zs zs j] show ?thesis by blast
  qed
  have weaken: "follows zs (j # tab) \<longrightarrow> follows zs (k # j # tab)" for zs k
  proof (induction zs)
    case (Cons z zs)
    show ?case
    proof
      assume a: "follows (z # zs) (j # tab)"
      show "follows (z # zs) (k # j # tab)"
      proof (cases "z = k")
        case True
        from tl [OF a] Cons.IH have "follows zs (k # j # tab)" by simp
        with True show ?thesis by simp
      next
        case False
        with a show ?thesis by simp
      qed
    qed
  qed simp
  from tl weaken show ?case by blast
qed

lemma follows_weaken: "follows xs tab \<Longrightarrow> follows xs (i # tab)"
  using follows_tl_weaken by blast

lemma follows_same: "set xs \<subseteq> {i} \<Longrightarrow> follows ys tab \<Longrightarrow> follows (xs @ ys) (i # tab)"
  by (induction xs) (auto intro: follows_weaken)

lemma SendPendingData_streams_order:
  "SendPendingData_streams tab s = Some (fin, s') \<Longrightarrow>
   \<exists>ser rest. trace s' = trace s @ ser @ rest \<and>
     list_all (\<lambda>a. \<not> is_lib_write a \<and> \<not> is_flush a) ser \<and>
     follows (writev_ids ser) (table_ids tab) \<and>
     list_all (\<lambda>a. \<not> is_writev a \<and> \<not> is_flush a) rest"
proof (induction tab arbitrary: s)
  case Nil
  then show ?case by simp
next
  case (Cons p tab)
  obtain i st where p: "p = (i, st)" by (cases p)
  from Cons.prems p obtain ok s1 where
    sd: "SendStreamData st s = Some (ok, s1)" and
    k: "if \<not> ok then (\<exists>s2. HandleError s1 = Some s2 \<and> fin = False \<and> s' = s2)
        else if IsInDrainingPeriod s1 \<or> IsInClosingPeriod s1 \<or>
                IsFlagSet QUICSESSION_FLAG_DESTROYED s1
        then fin = False \<and> s' = s1
        else SendPendingData_streams tab s1 = Some (fin, s')"
    by (auto split: option.splits if_splits)
  from stream_steps_grow [OF SendStreamData_steps [OF sd]] obtain t1 where
    t1: "trace s1 = trace s @ t1"
      "list_all (\<lambda>a. \<not> is_lib_write a \<and> \<not> is_flush a \<and>
                    (is_writev a \<longrightarrow> a = ConnWritevStream (stream_id st))) t1"
    by (auto simp: trace_grows_def)
  have t1a: "list_all (\<lambda>a. \<not> is_lib_write a \<and> \<not> is_flush a) t1"
    using t1(2) by (simp add: list_all_iff)
  have t1b: "set (writev_ids t1) \<subseteq> {stream_id st}"
    using t1(2) by (intro writev_ids_only) (simp add: list_all_iff)
  have ids: "table_ids (p # tab) = stream_id st # table_ids tab"
    by (simp add: table_ids_def p)
  consider (err) s2 where "\<not> ok" "HandleError s1 = Some s2" "s' = s2"
    | (stop) "s' = s1"
    | (go) "SendPendingData_streams tab s1 = Some (fin, s')"
    using k by (auto split: if_splits)
  then show ?case
  proof cases
    case err
    from nonstream_steps_grow [OF HandleError_steps [OF err(2)]] obtain t2 where
      "trace s2 = trace s1 @ t2" "list_all (\<lambda>a. \<not> is_writev a \<and> \<not> is_flush a) t2"
      by (auto simp: trace_grows_def)
    with t1 t1a t1b err ids show ?thesis
      using follows_same [of "writev_ids t1" "stream_id st" "[]" "table_ids tab"]
      by (intro exI [of _ t1] exI [of _ t2]) simp
  next
    case stop
    with t1 t1a t1b ids show ?thesis
      using follows_same [of "writev_ids t1" "stream_id st" "[]" "table_ids tab"]
      by (intro exI [of _ t1] exI [of _ "[]"]) simp
  next
    case go
    from Cons.IH [OF go] obtain ser rest where
      r: "trace s' = trace s1 @ ser @ rest"
         "list_all (\<lambda>a. \<not> is_lib_write a \<and> \<not> is_flush a) ser"
         "follows (writev_ids ser) (table_ids tab)"
         "list_all (\<lambda>a. \<not> is_writev a \<and> \<not> is_flush a) rest"
      by blast
    with t1 t1a t1b ids show ?thesis
      using follows_same [of "writev_ids t1" "stream_id st" "writev_ids ser" "table_ids tab"]
      by (intro exI [of _ "t1 @ ser"] exI [of _ rest]) (simp add: writev_ids_append)
  qed
qed

lemma SendPendingData_streams_frame:
  "SendPendingData_streams tab s = Some (fin, s') \<Longrightarrow> send_frame s' = send_frame s"
proof (induction tab arbitrary: s)
  case Nil
  then show ?case by simp
next
  case (Cons p tab)
  obtain i st where p: "p = (i, st)" by (cases p)
  from Cons.prems p obtain ok s1 where
    sd: "SendStreamData st s = Some (ok, s1)" and
    k: "HandleError s1 = Some s' \<or> s' = s1 \<or> SendPendingData_streams tab s1 = Some (fin, s')"
    by (auto split: option.splits if_splits)
  have "send_frame s1 = send_frame s"
    by (rule stream_steps_frame [OF SendStreamData_steps [OF sd]])
  moreover have "send_frame s' = send_frame s1"
    using k by (auto dest: Cons.IH HandleError_steps [THEN nonstream_steps_frame])
  ultimately show ?case by simp
qed

lemma SendStreamData_loop_first:
  assumes "SendStreamData_loop st v s = Some (r, s')"
  shows "\<exists>t. trace s' = trace s @ ConnWritevStream (stream_id st) # t"
proof -
  let ?s1 = "snd (conn_writev_stream (stream_id st) s)"
  have 1: "trace ?s1 = trace s @ [ConnWritevStream (stream_id st)]"
    by (simp add: conn_writev_stream_def log_action_def Let_def)
  from stream_steps_grow [OF SendStreamData_loop_steps_after_call [OF assms]]
  obtain t where "trace s' = trace ?s1 @ t" by (auto simp: trace_grows_def)
  with 1 show ?thesis by simp
qed


lemma SendPacket_keeps:
  "SendPacket l s = Some (r, s') \<Longrightarrow>
   streams s' = streams s \<and> flags s' = flags s \<and> connection s' = connection s"
  by (auto simp: SendPacket_def Socket_SendPacket_def ScheduleRetransmit_def
        UpdateRetransmitTimer_def SetLastError_def Let_def
        split: if_splits option.splits)

lemma serialised_skip:
  "\<not> sendable st \<Longrightarrow> serialised xs ((i, st) # tab) = serialised xs tab"
  by (cases xs) auto

lemma serialised_same:
  "sendable st \<Longrightarrow> set ys \<subseteq> {stream_id st} \<Longrightarrow> serialised zs tab \<Longrightarrow>
   serialised (stream_id st # ys @ zs) ((i, st) # tab)"
  by (induction ys) auto

lemma SendPendingData_streams_serialised:
  assumes "SendPendingData_streams tab s = Some (True, s')"
    and "\<not> in_ngtcp2_callback_scope s" and "get_max_data_left (connection s) \<noteq> 0"
    and "\<not> IsFlagSet QUICSESSION_FLAG_DESTROYED s"
    and "\<not> IsInDrainingPeriod s" and "\<not> IsInClosingPeriod s"
  shows "\<exists>t. trace s' = trace s @ t \<and> serialised (writev_ids t) tab"
  using assms
proof (induction tab arbitrary: s)
  case Nil
  then show ?case by simp
next
  case (Cons p tab)
  obtain i st where p: "p = (i, st)" by (cases p)
  from Cons.prems(1) p obtain s1 where
    sd: "SendStreamData st s = Some (True, s1)" and
    open1: "\<not> IsInDrainingPeriod s1" "\<not> IsInClosingPeriod s1"
      "\<not> IsFlagSet QUICSESSION_FLAG_DESTROYED s1" and
    go: "SendPendingData_streams tab s1 = Some (True, s')"
    by (auto split: option.splits if_splits)
  have fr: "send_frame s1 = send_frame s"
    by (rule stream_steps_frame [OF SendStreamData_steps [OF sd]])
  then have r1: "\<not> in_ngtcp2_callback_scope s1" "get_max_data_left (connection s1) \<noteq> 0"
    using Cons.prems(2,3) by (simp_all add: send_frame_def)
  from Cons.IH [OF go r1 open1(3) open1(1) open1(2)] obtain t2 where
    t2: "trace s' = trace s1 @ t2" "serialised (writev_ids t2) tab"
    by blast
  show ?case
  proof (cases "sendable st")
    case False
    with Cons.prems(2) have "SendStreamData st s = Some (True, s)"
      by (auto simp: SendStreamData_def sendable_def Let_def)
    with sd have "s1 = s" by simp
    with t2 False p show ?thesis by (simp add: serialised_skip)
  next
    case True
    have "SendStreamData st s = SendStreamData_loop st (pending st) s"
      using Cons.prems(2-6) True
      by (auto simp: SendStreamData_def sendable_def Let_def)
    with sd have "SendStreamData_loop st (pending st) s = Some (True, s1)" by simp
    from SendStreamData_loop_first [OF this] obtain t1 where
      t1: "trace s1 = trace s @ ConnWritevStream (stream_id st) # t1" ..
    from stream_steps_grow [OF SendStreamData_steps [OF sd]] obtain u where
      u: "trace s1 = trace s @ u"
        "list_all (\<lambda>a. \<not> is_lib_write a \<and> \<not> is_flush a \<and>
                      (is_writev a \<longrightarrow> a = ConnWritevStream (stream_id st))) u"
      by (auto simp: trace_grows_def)
    from t1 u(1) have "u = ConnWritevStream (stream_id st) # t1" by simp
    with u(2) have "list_all (\<lambda>a. is_writev a \<longrightarrow> a = ConnWritevStream (stream_id st)) t1"
      by (simp add: list_all_iff)
    then have "set (writev_ids t1) \<subseteq> {stream_id st}" by (rule writev_ids_only)
    from serialised_same [OF True this t2(2), of i]
    have "serialised (writev_ids (ConnWritevStream (stream_id st) # t1 @ t2)) (p # tab)"
      by (simp add: writev_ids_append p)
    with t1 t2(1) show ?thesis
      by (intro exI [of _ "ConnWritevStream (stream_id st) # t1 @ t2"]) simp
  qed
qed

lemma SendPendingData_frame:
  assumes "SendPendingData s = Some s'"
  shows "send_frame s' = send_frame s"
proof (cases "in_ngtcp2_callback_scope s \<or> IsFlagSet QUICSESSION_FLAG_DESTROYED s \<or>
    IsInDrainingPeriod s \<or> (side s = NGTCP2_CRYPTO_SIDE_SERVER \<and> IsInClosingPeriod s)")
  case True
  with assms show ?thesis by (simp add: SendPendingData_def)
next
  case False
  with assms obtain ok s1 where sp: "SendPacket ''pending session data'' s = Some (ok, s1)"
    and k1: "if \<not> ok then HandleError s1 = Some s'
       else (case SendPendingData_streams (streams s1) s1 of None \<Rightarrow> None
             | Some (finished, s2) \<Rightarrow>
                 if \<not> finished then Some s2
                 else (case WritePackets ''pending session data - write packets'' s2 of
                         None \<Rightarrow> None
                       | Some (ok2, s3) \<Rightarrow> if \<not> ok2 then HandleError s3 else Some s3)) = Some s'"
    by (auto simp: SendPendingData_def split: option.splits if_splits)
  have f1: "send_frame s1 = send_frame s" using sp by (rule SendPacket_frame)
  show ?thesis
  proof (cases ok)
    case False
    with k1 have "HandleError s1 = Some s'" by simp
    from nonstream_steps_frame [OF HandleError_steps [OF this]] f1 show ?thesis by simp
  next
    case True
    with k1 obtain finished s2 where
      l: "SendPendingData_streams (streams s1) s1 = Some (finished, s2)" and
      k2: "if \<not> finished then s' = s2
           else (case WritePackets ''pending session data - write packets'' s2 of
                   None \<Rightarrow> None
                 | Some (ok2, s3) \<Rightarrow> if \<not> ok2 then HandleError s3 else Some s3) = Some s'"
      by (auto split: option.splits if_splits)
    have f2: "send_frame s2 = send_frame s"
      using SendPendingData_streams_frame [OF l] f1 by simp
    show ?thesis
    proof (cases finished)
      case False
      with k2 f2 show ?thesis by simp
    next
      case True
      with k2 obtain ok2 s3 where
        w: "WritePackets ''pending session data - write packets'' s2 = Some (ok2, s3)" and
        k3: "if \<not> ok2 then HandleError s3 = Some s' else s' = s3"
        by (auto split: option.splits if_splits)
      have f3: "send_frame s3 = send_frame s"
        using nonstream_steps_frame [OF WritePackets_steps [OF w]] f2 by simp
      show ?thesis
      proof (cases ok2)
        case True
        with k3 f3 show ?thesis by simp
      next
        case False
        with k3 have "HandleError s3 = Some s'" by simp
        from nonstream_steps_frame [OF HandleError_steps [OF this]] f3 show ?thesis by simp
      qed
    qed
  qed
qed


lemma SendPendingData_trace:
  assumes ng: "\<not> (in_ngtcp2_callback_scope s \<or> IsFlagSet QUICSESSION_FLAG_DESTROYED s \<or>
      IsInDrainingPeriod s \<or> (side s = NGTCP2_CRYPTO_SIDE_SERVER \<and> IsInClosingPeriod s))"
    and r: "SendPendingData s = Some s'"
  shows "\<exists>flush ser rest. trace s' = trace s @ flush @ ser @ rest \<and>
      (flush = [] \<or> (\<exists>b. flush = [SocketSendPacket ''pending session data'' b])) \<and>
      list_all (\<lambda>a. \<not> is_lib_write a \<and> \<not> is_flush a) ser \<and>
      follows (writev_ids ser) (table_ids (streams s)) \<and>
      list_all (\<lambda>a. \<not> is_writev a \<and> \<not> is_flush a) rest"
proof -
  let ?N = "\<lambda>a. \<not> is_writev a \<and> \<not> is_flush a"
  from ng r obtain ok s1 where sp: "SendPacket ''pending session data'' s = Some (ok, s1)"
    and k1: "if \<not> ok then HandleError s1 = Some s'
       else (case SendPendingData_streams (streams s1) s1 of None \<Rightarrow> None
             | Some (finished, s2) \<Rightarrow>
                 if \<not> finished then Some s2
                 else (case WritePackets ''pending session data - write packets'' s2 of
                         None \<Rightarrow> None
                       | Some (ok2, s3) \<Rightarrow> if \<not> ok2 then HandleError s3 else Some s3)) = Some s'"
    by (auto simp: SendPendingData_def split: option.splits if_splits)
  from SendPacket_trace [OF sp] obtain flush where
    fl: "trace s1 = trace s @ flush"
      "flush = [] \<or> (\<exists>b. flush = [SocketSendPacket ''pending session data'' b])"
    by auto
  have tab: "streams s1 = streams s" using SendPacket_keeps [OF sp] by simp
  have "\<exists>ser rest. trace s' = trace s1 @ ser @ rest \<and>
      list_all (\<lambda>a. \<not> is_lib_write a \<and> \<not> is_flush a) ser \<and>
      follows (writev_ids ser) (table_ids (streams s)) \<and> list_all ?N rest"
  proof (cases ok)
    case False
    with k1 have "HandleError s1 = Some s'" by simp
    from nonstream_steps_grow [OF HandleError_steps [OF this]] obtain t where
      "trace s' = trace s1 @ t" "list_all ?N t"
      by (auto simp: trace_grows_def)
    then show ?thesis by (intro exI [of _ "[]"] exI [of _ t]) simp
  next
    case True
    with k1 obtain finished s2 where
      l: "SendPendingData_streams (streams s1) s1 = Some (finished, s2)" and
      k2: "if \<not> finished then s' = s2
           else (case WritePackets ''pending session data - write packets'' s2 of
                   None \<Rightarrow> None
                 | Some (ok2, s3) \<Rightarrow> if \<not> ok2 then HandleError s3 else Some s3) = Some s'"
      by (auto split: option.splits if_splits)
    from SendPendingData_streams_order [OF l] tab obtain ser rest where
      o: "trace s2 = trace s1 @ ser @ rest"
         "list_all (\<lambda>a. \<not> is_lib_write a \<and> \<not> is_flush a) ser"
         "follows (writev_ids ser) (table_ids (streams s))" "list_all ?N rest"
      by auto
    have "trace_grows ?N s2 s'"
    proof (cases finished)
      case False
      with k2 show ?thesis by simp
    next
      case True
      with k2 obtain ok2 s3 where
        w: "WritePackets ''pending session data - write packets'' s2 = Some (ok2, s3)" and
        k3: "if \<not> ok2 then HandleError s3 = Some s' else s' = s3"
        by (auto split: option.splits if_splits)
      have g3: "trace_grows ?N s2 s3"
        by (rule nonstream_steps_grow [OF WritePackets_steps [OF w]]) simp
      show ?thesis
      proof (cases ok2)
        case True
        with k3 g3 show ?thesis by simp
      next
        case False
        with k3 have "HandleError s3 = Some s'" by simp
        from nonstream_steps_grow [OF HandleError_steps [OF this]] g3
        show ?thesis by (auto intro: trace_grows_trans)
      qed
    qed
    then obtain t where "trace s' = trace s2 @ t" "list_all ?N t"
      by (auto simp: trace_grows_def)
    with o show ?thesis by (intro exI [of _ ser] exI [of _ "rest @ t"]) simp
  qed
  with fl show ?thesis by auto
qed

lemma SendPendingData_phases:
  "(in_ngtcp2_callback_scope s \<or> IsFlagSet QUICSESSION_FLAG_DESTROYED s \<or>
    IsInDrainingPeriod s \<or> (side s = NGTCP2_CRYPTO_SIDE_SERVER \<and> IsInClosingPeriod s) \<longrightarrow>
      SendPendingData s = Some s) \<and>
   (\<not> (in_ngtcp2_callback_scope s \<or> IsFlagSet QUICSESSION_FLAG_DESTROYED s \<or>
       IsInDrainingPeriod s \<or> (side s = NGTCP2_CRYPTO_SIDE_SERVER \<and> IsInClosingPeriod s)) \<longrightarrow>
      (\<forall>s'. SendPendingData s = Some s' \<longrightarrow>
         (\<exists>flush ser rest. trace s' = trace s @ flush @ ser @ rest \<and>
            (flush = [] \<or> (\<exists>b. flush = [SocketSendPacket ''pending session data'' b])) \<and>
            list_all (\<lambda>a. \<not> is_lib_write a \<and> \<not> is_flush a) ser \<and>
            follows (writev_ids ser) (table_ids (streams s)) \<and>
            list_all (\<lambda>a. \<not> is_writev a \<and> \<not> is_flush a) rest)) \<and>
      (\<forall>s1 s2. SendPacket ''pending session data'' s = Some (True, s1) \<and>
         SendPendingData_streams (streams s1) s1 = Some (True, s2) \<longrightarrow>
           SendPendingData s =
             (case WritePackets ''pending session data - write packets'' s2 of
                None \<Rightarrow> None
              | Some (ok, s3) \<Rightarrow> if ok then Some s3 else HandleError s3) \<and>
           (\<not> IsInClosingPeriod s \<and> get_max_data_left (connection s) \<noteq> 0 \<longrightarrow>
              (\<exists>t. trace s2 = trace s1 @ t \<and> serialised (writev_ids t) (streams s)))))"
proof (intro conjI impI allI)
  assume "in_ngtcp2_callback_scope s \<or> IsFlagSet QUICSESSION_FLAG_DESTROYED s \<or>
    IsInDrainingPeriod s \<or> (side s = NGTCP2_CRYPTO_SIDE_SERVER \<and> IsInClosingPeriod s)"
  then show "SendPendingData s = Some s" by (simp add: SendPendingData_def)
next
  fix s'
  assume "\<not> (in_ngtcp2_callback_scope s \<or> IsFlagSet QUICSESSION_FLAG_DESTROYED s \<or>
       IsInDrainingPeriod s \<or> (side s = NGTCP2_CRYPTO_SIDE_SERVER \<and> IsInClosingPeriod s))"
    and "SendPendingData s = Some s'"
  then show "\<exists>flush ser rest. trace s' = trace s @ flush @ ser @ rest \<and>
            (flush = [] \<or> (\<exists>b. flush = [SocketSendPacket ''pending session data'' b])) \<and>
            list_all (\<lambda>a. \<not> is_lib_write a \<and> \<not> is_flush a) ser \<and>
            follows (writev_ids ser) (table_ids (streams s)) \<and>
            list_all (\<lambda>a. \<not> is_writev a \<and> \<not> is_flush a) rest"
    by (rule SendPendingData_trace)
next
  fix s1 s2
  assume ng: "\<not> (in_ngtcp2_callback_scope s \<or> IsFlagSet QUICSESSION_FLAG_DESTROYED s \<or>
       IsInDrainingPeriod s \<or> (side s = NGTCP2_CRYPTO_SIDE_SERVER \<and> IsInClosingPeriod s))"
    and run: "SendPacket ''pending session data'' s = Some (True, s1) \<and>
         SendPendingData_streams (streams s1) s1 = Some (True, s2)"
  then show "SendPendingData s =
             (case WritePackets ''pending session data - write packets'' s2 of
                None \<Rightarrow> None
              | Some (ok, s3) \<Rightarrow> if ok then Some s3 else HandleError s3)"
    by (auto simp: SendPendingData_def split: option.splits)
next
  fix s1 s2
  assume ng: "\<not> (in_ngtcp2_callback_scope s \<or> IsFlagSet QUICSESSION_FLAG_DESTROYED s \<or>
       IsInDrainingPeriod s \<or> (side s = NGTCP2_CRYPTO_SIDE_SERVER \<and> IsInClosingPeriod s))"
    and run: "SendPacket ''pending session data'' s = Some (True, s1) \<and>
         SendPendingData_streams (streams s1) s1 = Some (True, s2)"
    and rdy: "\<not> IsInClosingPeriod s \<and> get_max_data_left (connection s) \<noteq> 0"
  from run have sp: "SendPacket ''pending session data'' s = Some (True, s1)"
    and l: "SendPendingData_streams (streams s1) s1 = Some (True, s2)" by simp_all
  note k = SendPacket_keeps [OF sp]
  have f: "send_frame s1 = send_frame s" using sp by (rule SendPacket_frame)
  have "\<exists>t. trace s2 = trace s1 @ t \<and> serialised (writev_ids t) (streams s1)"
    using l
  proof (rule SendPendingData_streams_serialised)
    show "\<not> in_ngtcp2_callback_scope s1" using ng f by (simp add: send_frame_def)
    show "get_max_data_left (connection s1) \<noteq> 0" using rdy k by simp
    show "\<not> IsFlagSet QUICSESSION_FLAG_DESTROYED s1" using ng k by (simp add: IsFlagSet_def)
    show "\<not> IsInDrainingPeriod s1" using ng k by (simp add: IsInDrainingPeriod_def)
    show "\<not> IsInClosingPeriod s1" using rdy k by (simp add: IsInClosingPeriod_def)
  qed
  with k show "\<exists>t. trace s2 = trace s1 @ t \<and> serialised (writev_ids t) (streams s)"
    by simp
qed

text \<open>
  The stream table is walked by ascending stream id whatever the order in which the
  streams were added.
\<close>

lemma emplace_keys: "fst ` set (emplace i st tab) = insert i (fst ` set tab)"
  by (induction i st tab rule: emplace.induct) auto

lemma emplace_sorted:
  "sorted (map fst tab) \<Longrightarrow> sorted (map fst (emplace i st tab))"
proof (induction i st tab rule: emplace.induct)
  case (2 i st k v tab)
  have "\<forall>x \<in> fst ` set (emplace i st tab). k \<le> x" if "\<not> i < k"
    using that 2(2) by (auto simp: emplace_keys)
  with 2 show ?case by (auto simp: image_iff)
qed simp

lemma AddStream_table_sorted:
  "sorted (map fst (streams s)) \<Longrightarrow> sorted (map fst (streams (AddStream st s)))"
  by (simp add: AddStream_def emplace_sorted bump_streams_in_def bump_streams_out_def
        bump_bidi_def bump_uni_def Let_def
        split: QuicStreamOrigin.splits QuicStreamDirection.splits)


subsection \<open>Received bytes\<close>

lemma send_frame_received:
  "send_frame s' = send_frame s \<Longrightarrow>
   bytes_received (session_stats s') = bytes_received (session_stats s)"
  by (simp add: send_frame_def)

lemma SilentClose_received:
  "SilentClose b s = Some s' \<Longrightarrow>
   bytes_received (session_stats s') = bytes_received (session_stats s)"
  by (rule send_frame_received [OF SilentClose_frame])

lemma AddStream_received:
  "bytes_received (session_stats (AddStream st s)) = bytes_received (session_stats s)"
  by (simp add: AddStream_def bump_streams_in_def bump_streams_out_def bump_bidi_def
        bump_uni_def Let_def split: QuicStreamOrigin.splits QuicStreamDirection.splits)

lemma ReceiveStreamData_received:
  "ReceiveStreamData i fin data offset s = Some s' \<Longrightarrow>
   bytes_received (session_stats s') = bytes_received (session_stats s)"
  by (auto simp: ReceiveStreamData_def CreateStream_def stream_ReceiveData_def log_action_def
        AddStream_received Let_def split: if_splits option.splits)

lemma AckedCryptoOffset_received:
  "bytes_received (session_stats (AckedCryptoOffset l n s)) = bytes_received (session_stats s)"
  by (simp add: AckedCryptoOffset_def Let_def)

lemma run_callback_received:
  "run_callback cb s = Some s' \<Longrightarrow>
   bytes_received (session_stats s') = bytes_received (session_stats s)"
proof (cases cb)
  case (CbAckedCryptoOffset l n)
  assume "run_callback cb s = Some s'"
  with CbAckedCryptoOffset show ?thesis
    by (auto simp: in_callback_scope_def AckedCryptoOffset_received)
next
  case (CbReceiveStreamData i fin data offset)
  assume "run_callback cb s = Some s'"
  with CbReceiveStreamData show ?thesis
    by (auto simp: in_callback_scope_def split: option.splits
          dest!: ReceiveStreamData_received)
next
  case CbStatelessReset
  assume "run_callback cb s = Some s'"
  with CbStatelessReset show ?thesis by (auto dest: SilentClose_received)
qed

lemma run_callbacks_received:
  "run_callbacks cbs s = Some s' \<Longrightarrow>
   bytes_received (session_stats s') = bytes_received (session_stats s)"
proof (induction cbs arbitrary: s)
  case (Cons cb cbs)
  then obtain s1 where "run_callback cb s = Some s1" "run_callbacks cbs s1 = Some s'"
    by (auto split: option.splits)
  with Cons.IH [of s1] run_callback_received [of cb s s1] show ?case by simp
qed simp

lemma ReceivePacket_received:
  "ReceivePacket s = Some (r, s') \<Longrightarrow>
   bytes_received (session_stats s') = bytes_received (session_stats s)"
  by (auto simp: ReceivePacket_def conn_read_pkt_def log_action_def SetLastError_def Let_def
        split: if_splits option.splits dest!: run_callbacks_received)

text \<open>
  C10. On a destroyed session \<^verbatim>\<open>Receive\<close> returns false and leaves the session, and
  with it \<^verbatim>\<open>bytes_received\<close>, as it was. On any other session, whenever \<^verbatim>\<open>Receive\<close>
  returns (also after dropping the packet in the closing or the draining period, and
  after any error), \<^verbatim>\<open>bytes_received\<close> is larger by \<open>nread\<close>, as a 64-bit counter.
\<close>

theorem Receive_counts_bytes:
  "(IsFlagSet QUICSESSION_FLAG_DESTROYED s \<longrightarrow> Receive nread s = Some (False, s)) \<and>
   (\<not> IsFlagSet QUICSESSION_FLAG_DESTROYED s \<longrightarrow>
      (\<forall>r s'. Receive nread s = Some (r, s') \<longrightarrow>
         bytes_received (session_stats s') =
           bytes_received (session_stats s) + word_of_int nread))"
proof (intro conjI impI allI)
  assume "IsFlagSet QUICSESSION_FLAG_DESTROYED s"
  then show "Receive nread s = Some (False, s)" by (simp add: Receive_def)
next
  fix r s'
  assume nd: "\<not> IsFlagSet QUICSESSION_FLAG_DESTROYED s"
    and R: "Receive nread s = Some (r, s')"
  let ?br = "\<lambda>s. bytes_received (session_stats s)"
  let ?s1 = "count_bytes_received nread s"
  have c: "?br ?s1 = ?br s + word_of_int nread"
    by (simp add: count_bytes_received_def IncrementStat_def)
  have scc: "?br b = ?br a" if "SendConnectionClose a = Some (x, b)" for a b x
    using that by (intro send_frame_received nonstream_steps_frame SendConnectionClose_steps)
  have he: "?br b = ?br a" if "HandleError a = Some b" for a b
    using that by (intro send_frame_received nonstream_steps_frame HandleError_steps)
  have spd: "?br b = ?br a" if "SendPendingData a = Some b" for a b
    using that by (intro send_frame_received SendPendingData_frame)
  have "?br s' = ?br ?s1"
  proof (cases "IsInClosingPeriod ?s1")
    case True
    with nd R have "s' = IncrementConnectionCloseAttempts ?s1 \<or>
        SendConnectionClose (IncrementConnectionCloseAttempts ?s1) = Some (r, s')"
      by (auto simp: Receive_def Let_def split: if_splits)
    then show ?thesis
      by (auto dest!: scc simp: IncrementConnectionCloseAttempts_def)
  next
    case nc: False
    show ?thesis
    proof (cases "IsInDrainingPeriod ?s1")
      case True
      with nd nc R show ?thesis by (auto simp: Receive_def Let_def)
    next
      case False
      with nd nc R obtain ok s2 where rp: "ReceivePacket ?s1 = Some (ok, s2)"
        and k: "HandleError s2 = Some s' \<or>
          (\<exists>x. SendConnectionClose
                 (SetLastError QUIC_ERROR_SESSION (initial_connection_close s2) s2) =
               Some (x, s')) \<or>
          (\<exists>x. SendConnectionClose (SetLastError_default s2) = Some (x, s')) \<or>
          s' = s2 \<or> SilentClose False s2 = Some s' \<or>
          (\<exists>s3. SendPendingData s2 = Some s3 \<and> s' = UpdateIdleTimer s3)"
        by (auto simp: Receive_def Let_def split: if_splits option.splits)
      have "?br s2 = ?br ?s1" using rp by (rule ReceivePacket_received)
      moreover have "?br s' = ?br s2"
        using k
        by (auto dest!: he scc spd SilentClose_received
              simp: SetLastError_def SetLastError_default_def UpdateIdleTimer_def Let_def)
      ultimately show ?thesis by simp
    qed
  qed
  with c show "?br s' = ?br s + word_of_int nread" by simp
qed

theorem Receive_counts_bytes_witness:
  "\<not> IsFlagSet QUICSESSION_FLAG_DESTROYED receive_example \<and>
   (\<exists>s'. Receive 120 receive_example = Some (True, s') \<and>
      bytes_received (session_stats s') = 120) \<and>
   (\<exists>s'. Receive 40 closing_exhausted_example = Some (False, s') \<and>
      bytes_received (session_stats s') = 40) \<and>
   (\<exists>s'. Receive 100 draining_example = Some (True, s') \<and>
      bytes_received (session_stats s') = 100) \<and>
   Receive 7 (SetFlag QUICSESSION_FLAG_DESTROYED True session0) =
     Some (False, SetFlag QUICSESSION_FLAG_DESTROYED True session0)"
proof -
  have n: "\<not> IsFlagSet QUICSESSION_FLAG_DESTROYED receive_example"
    "\<not> IsFlagSet QUICSESSION_FLAG_DESTROYED closing_exhausted_example"
    "\<not> IsFlagSet QUICSESSION_FLAG_DESTROYED draining_example"
    "bytes_received (session_stats receive_example) = 0"
    "bytes_received (session_stats closing_exhausted_example) = 0"
    "bytes_received (session_stats draining_example) = 0"
    by (simp_all add: receive_example_def closing_exhausted_example_def closing_example_def
          draining_example_def session0_def IsFlagSet_def)
  have e: "map_option fst (Receive 120 receive_example) = Some True"
    "map_option fst (Receive 40 closing_exhausted_example) = Some False"
    "map_option fst (Receive 100 draining_example) = Some True"
    by code_simp+
  have 1: "\<exists>s'. Receive 120 receive_example = Some (True, s') \<and>
      bytes_received (session_stats s') = 120"
    using e(1) Receive_counts_bytes [of receive_example 120] n by auto
  have 2: "\<exists>s'. Receive 40 closing_exhausted_example = Some (False, s') \<and>
      bytes_received (session_stats s') = 40"
    using e(2) Receive_counts_bytes [of closing_exhausted_example 40] n by auto
  have 3: "\<exists>s'. Receive 100 draining_example = Some (True, s') \<and>
      bytes_received (session_stats s') = 100"
    using e(3) Receive_counts_bytes [of draining_example 100] n by auto
  have 4: "Receive 7 (SetFlag QUICSESSION_FLAG_DESTROYED True session0) =
     Some (False, SetFlag QUICSESSION_FLAG_DESTROYED True session0)"
    using Receive_counts_bytes [of "SetFlag QUICSESSION_FLAG_DESTROYED True session0" 7]
    by (simp add: SetFlag_def IsFlagSet_def)
  from n(1) 1 2 3 4 show ?thesis by blast
qed

end
